theory Spec2Isabelle
  imports Complex_Main "HOL-Library.Sublist"
begin

section \<open>Strings\<close>

text \<open>
  The verdict tokens are Python \<open>str\<close> values. A \<open>char\<close> stands for the code point
  of the same number, so a \<open>string\<close> is a Python string of code points below 256.
  \<open>str.strip()\<close> removes leading and trailing white space; the white space below 256
  is \<open>is_space\<close>. \<open>sub in s\<close> is contiguous containment. \<open>str.upper()\<close> maps
  \<open>a\<close>..\<open>z\<close> to \<open>A\<close>..\<open>Z\<close> and leaves every other ASCII character as it is;
  above 127 Python also maps letters, some of them to code points above 255 or to two
  characters, which \<open>upper_char\<close> does not follow. So \<open>upper\<close> is Python's on ASCII
  strings (\<open>ascii_token\<close>), and a statement about what \<open>upper\<close> makes of a token
  is made for ASCII tokens.
\<close>

definition is_space :: "char \<Rightarrow> bool" where
  "is_space c = (c \<in> set [CHR 0x09, CHR 0x0A, CHR 0x0B, CHR 0x0C, CHR 0x0D,
                           CHR 0x1C, CHR 0x1D, CHR 0x1E, CHR 0x1F, CHR '' '',
                           CHR 0x85, CHR 0xA0])"

definition is_ascii :: "char \<Rightarrow> bool" where
  "is_ascii c = (\<not> digit7 c)"

definition ascii_token :: "string \<Rightarrow> bool" where
  "ascii_token s = list_all is_ascii s"

definition upper_char :: "char \<Rightarrow> char" where
  "upper_char c =
     (case map_of (zip ''abcdefghijklmnopqrstuvwxyz'' ''ABCDEFGHIJKLMNOPQRSTUVWXYZ'') c of
        Some u \<Rightarrow> u
      | None \<Rightarrow> c)"

definition upper :: "string \<Rightarrow> string" where
  "upper s = map upper_char s"

definition strip :: "string \<Rightarrow> string" where
  "strip s = rev (dropWhile is_space (rev (dropWhile is_space s)))"

fun contains :: "string \<Rightarrow> string \<Rightarrow> bool" where
  "contains sub [] = (sub = [])"
| "contains sub (c # cs) = (prefix sub (c # cs) \<or> contains sub cs)"

text \<open>\<open>str(n)\<close> for an integer, and \<open>fmt.format(slot=n)\<close> for a pattern whose only
  replacement field is \<open>{slot}\<close> (the patterns of \<open>config/settings.py\<close>).\<close>

definition digit_char :: "nat \<Rightarrow> char" where
  "digit_char d = ''0123456789'' ! d"

fun dec_nat :: "nat \<Rightarrow> string" where
  "dec_nat n = (if n < 10 then [digit_char n] else dec_nat (n div 10) @ [digit_char (n mod 10)])"

declare dec_nat.simps [simp del]

definition str_int :: "int \<Rightarrow> string" where
  "str_int i = (if i < 0 then CHR ''-'' # dec_nat (nat (- i)) else dec_nat (nat i))"

fun format_slot :: "string \<Rightarrow> int \<Rightarrow> string" where
  "format_slot [] n = []"
| "format_slot (c # cs) n =
     (if prefix ''{slot}'' (c # cs) then str_int n @ format_slot (drop 5 cs) n
      else c # format_slot cs n)"

section \<open>Data model of \<open>backend/sequencer.py\<close>\<close>

text \<open>The dataclass \<open>SequencerConfig\<close>.\<close>

record SequencerConfig =
  total_slots1 :: int
  plan_open_machine1 :: string
  plan_close_machine1 :: string
  plan_pick_fmt1 :: string
  plan_place_pass_fmt1 :: string
  plan_place_fail_fmt1 :: string
  total_slots2 :: int
  plan_open_machine2 :: string
  plan_close_machine2 :: string
  plan_pick_fmt2 :: string
  plan_place_pass_fmt2 :: string
  plan_place_fail_fmt2 :: string
  plan_timeout_s :: real
  recover_timeout_s :: real
  test_timeout_s :: real

definition default_config :: SequencerConfig where
  "default_config =
     \<lparr> total_slots1 = 1,
       plan_open_machine1 = ''OpenMachine'',
       plan_close_machine1 = ''CloseMachine'',
       plan_pick_fmt1 = ''PickFromTray_{slot}'',
       plan_place_pass_fmt1 = ''PlaceToOutputPass'',
       plan_place_fail_fmt1 = ''PlaceToOutputFail'',
       total_slots2 = 1,
       plan_open_machine2 = ''OpenMachine'',
       plan_close_machine2 = ''CloseMachine'',
       plan_pick_fmt2 = ''PickFromTray_{slot}'',
       plan_place_pass_fmt2 = ''PlaceToOutputPass'',
       plan_place_fail_fmt2 = ''PlaceToOutputFail'',
       plan_timeout_s = 120,
       recover_timeout_s = 45,
       test_timeout_s = 900 \<rparr>"

text \<open>
  Every call of \<open>self.log\<close> is one constructor; the arguments are the values the
  source interpolates into the message.
  \<^item> \<open>LogListenerStarted m\<close>: "[Mm] listener started" (constructor of the class)
  \<^item> \<open>LogAlreadyRunning\<close>: "Sequencer already running"
  \<^item> \<open>LogStarted slot step\<close>: "Started (slot .., step ..)"
  \<^item> \<open>LogStopRequested\<close>: "Sequencer Stop requested - breaking out"
  \<^item> \<open>LogResetCalled\<close>: "RESET SEQUENCER CALLED"
  \<^item> \<open>LogResetDone\<close>: "Sequencer reset: Reload Trays and Open Machines"
  \<^item> \<open>LogWorkerAlive stop\<close>: "[SEQ] Worker alive: stop=.."
  \<^item> \<open>LogPingFailed m\<close>: "[Mm] ping failed: .."
  \<^item> \<open>LogCommCheck ok1 ok2\<close>: "[SEQ] Comm check .."
  \<^item> \<open>LogCommReady r1 r2\<close>: "[SEQ] Comm Ready Status .."
  \<^item> \<open>LogTraySizes n1 n2\<close>: "[SEQ] Tray Sizes .."
  \<^item> \<open>LogInvalidResult m r\<close>: "[Mm] Invalid test result: r"
  \<^item> \<open>LogAllDone\<close>: "[SEQ] All slots processed for both machines .. exiting."
  \<^item> \<open>LogEnded\<close>: "Sequencer HAS ENDED"
  \<^item> \<open>LogIgnored m\<close>: "[Mm] Ignored result (not awaiting)"
  \<^item> \<open>LogExternalResult m v\<close>: "[Mm] External test result: v"
  \<^item> \<open>LogStartPlan p\<close>: ".. Start plan: p"
  \<^item> \<open>LogStartPlanError\<close>: "start_plan error: .."
  \<^item> \<open>LogPlanFault p\<close>: "Plan 'p' interrupted by FAULT"
  \<^item> \<open>LogPlanFinishedStop p\<close>: ".. Plan finished (Stop Requested): p"
  \<^item> \<open>LogPlanFinished p\<close>: ".. Plan finished: p"
  \<^item> \<open>LogPlanTimeout p t\<close>: "Plan 'p' timeout (t s)"
  \<^item> \<open>LogRecoveryBlocked\<close>: "Recovery blocked: requires human intervention (no auto
    clear / no auto enable)."
  \<^item> \<open>LogSerialStarted m\<close>: "[Mm] Serial listener started"
  \<^item> \<open>LogSerialStopped m\<close>: "[Mm] Serial listener stopped"
\<close>

datatype log_line =
    LogListenerStarted int
  | LogAlreadyRunning
  | LogStarted int int
  | LogStopRequested
  | LogResetCalled
  | LogResetDone
  | LogWorkerAlive bool
  | LogPingFailed int
  | LogCommCheck bool bool
  | LogCommReady bool bool
  | LogTraySizes int int
  | LogInvalidResult int string
  | LogAllDone
  | LogEnded
  | LogIgnored int
  | LogExternalResult int string
  | LogStartPlan string
  | LogStartPlanError
  | LogPlanFault string
  | LogPlanFinishedStop string
  | LogPlanFinished string
  | LogPlanTimeout string real
  | LogRecoveryBlocked
  | LogSerialStarted int
  | LogSerialStopped int

text \<open>Calls made on the plan executor (\<open>self.backend\<close>).\<close>

datatype backend_call = StartPlan string int | BackendStop

text \<open>Threads created with \<open>threading.Thread(...).start()\<close>.\<close>

datatype thread_tag = WorkerThread | ListenerThread int

text \<open>The four guarded blocks of the worker loop, in the order of the source.\<close>

datatype transition = M1_UNLOAD | M1_LOAD | M2_UNLOAD | M2_LOAD

text \<open>
  The attributes of a \<open>Sequencer\<close> object. A \<open>threading.Event\<close> is its flag; a thread
  attribute is \<open>None\<close> or \<open>Some alive\<close>; a halt event attribute is \<open>None\<close> or
  \<open>Some flag\<close>. \<open>current_slot1\<close> and \<open>current_slot2\<close> are first bound by \<open>_worker\<close>
  through \<open>getattr(self, "current_slot1", 1)\<close> or by \<open>reset\<close>; an attribute not yet
  bound is represented by that default, 1. The fixed plan names \<open>plan_open1\<close>, ... are
  bound once to the fields of \<open>cfg\<close>, which are never reassigned, and are read from
  \<open>cfg\<close> here.

  The last five fields record what the object does to its surroundings: the lines
  logged, the calls on the backend, the durations passed to \<open>time.sleep\<close>, the threads
  started, and the guarded blocks of the worker loop that were entered.
\<close>

record Sequencer =
  cfg :: SequencerConfig
  current_slot :: int
  current_step :: int
  preamble_done :: bool
  th :: "bool option"
  fault :: bool
  plan_done_evt :: bool
  fault_evt :: bool
  stop_flag :: bool
  user_pause :: bool
  tester_done_evt1 :: bool
  serial1_th :: "bool option"
  halt_serial1 :: "bool option"
  tester_commready1 :: bool
  tester_result1 :: "string option"
  tester_operating1 :: bool
  tester_loaded1 :: bool
  awaiting_result1 :: bool
  tester_done_evt2 :: bool
  serial2_th :: "bool option"
  halt_serial2 :: "bool option"
  tester_commready2 :: bool
  tester_result2 :: "string option"
  tester_operating2 :: bool
  tester_loaded2 :: bool
  awaiting_result2 :: bool
  current_slot1 :: int
  current_slot2 :: int
  log_out :: "log_line list"
  backend_calls :: "backend_call list"
  sleeps :: "real list"
  spawned :: "thread_tag list"
  attempts :: "transition list"

definition log :: "log_line \<Rightarrow> Sequencer \<Rightarrow> Sequencer" where
  "log msg s = s\<lparr>log_out := log_out s @ [msg]\<rparr>"

definition sleep :: "real \<Rightarrow> Sequencer \<Rightarrow> Sequencer" where
  "sleep d s = s\<lparr>sleeps := sleeps s @ [d]\<rparr>"

text \<open>\<open>Sequencer.__init__\<close>: the attribute defaults, then the two listener threads.
  These two threads find \<open>_halt_serial1\<close> and \<open>_halt_serial2\<close> to be \<open>None\<close>, pass
  over the loop of \<open>_serial_worker\<close> and end; the thread attributes hold threads that
  are no longer alive.\<close>

definition init :: "SequencerConfig \<Rightarrow> Sequencer" where
  "init config =
     \<lparr> cfg = config,
       current_slot = 1,
       current_step = 0,
       preamble_done = False,
       th = None,
       fault = False,
       plan_done_evt = False,
       fault_evt = False,
       stop_flag = False,
       user_pause = False,
       tester_done_evt1 = False,
       serial1_th = Some False,
       halt_serial1 = None,
       tester_commready1 = False,
       tester_result1 = None,
       tester_operating1 = False,
       tester_loaded1 = False,
       awaiting_result1 = False,
       tester_done_evt2 = False,
       serial2_th = Some False,
       halt_serial2 = None,
       tester_commready2 = False,
       tester_result2 = None,
       tester_operating2 = False,
       tester_loaded2 = False,
       awaiting_result2 = False,
       current_slot1 = 1,
       current_slot2 = 1,
       log_out = [LogListenerStarted 1, LogListenerStarted 2],
       backend_calls = [],
       sleeps = [],
       spawned = [ListenerThread 1, ListenerThread 2],
       attempts = [] \<rparr>"

section \<open>Control surface\<close>

text \<open>\<open>start_listener\<close> and \<open>stop_listener\<close>. An \<open>Event\<close> object is truthy, so
  \<open>if self._halt_serial1:\<close> tests for \<open>None\<close>.\<close>

definition start_listener :: "int \<Rightarrow> Sequencer \<Rightarrow> Sequencer" where
  "start_listener machine_id s =
     (if machine_id = 1 then
        (if \<not> (case serial1_th s of Some alive \<Rightarrow> alive | None \<Rightarrow> False) then
           log (LogSerialStarted 1)
             (s\<lparr>halt_serial1 := Some False, serial1_th := Some True,
                spawned := spawned s @ [ListenerThread 1]\<rparr>)
         else s)
      else
        (if \<not> (case serial2_th s of Some alive \<Rightarrow> alive | None \<Rightarrow> False) then
           log (LogSerialStarted 2)
             (s\<lparr>halt_serial2 := Some False, serial2_th := Some True,
                spawned := spawned s @ [ListenerThread 2]\<rparr>)
         else s))"

definition stop_listener :: "int \<Rightarrow> Sequencer \<Rightarrow> Sequencer" where
  "stop_listener machine_id s =
     (if machine_id = 1 then
        log (LogSerialStopped 1)
          (s\<lparr>halt_serial1 := (case halt_serial1 s of None \<Rightarrow> None | Some _ \<Rightarrow> Some True)\<rparr>)
      else
        log (LogSerialStopped 2)
          (s\<lparr>halt_serial2 := (case halt_serial2 s of None \<Rightarrow> None | Some _ \<Rightarrow> Some True)\<rparr>))"

text \<open>\<open>start_seq_worker\<close>. The new thread runs \<open>_worker\<close> concurrently; starting it is
  recorded in \<open>th\<close> and \<open>spawned\<close>.\<close>

definition start_seq_worker :: "int option \<Rightarrow> Sequencer \<Rightarrow> Sequencer" where
  "start_seq_worker total_slots s =
     (let s1 = (case total_slots of
                  None \<Rightarrow> s
                | Some n \<Rightarrow> s\<lparr>cfg := (cfg s)\<lparr>total_slots1 := n, total_slots2 := n\<rparr>\<rparr>)
      in if (case th s1 of Some alive \<Rightarrow> alive | None \<Rightarrow> False) then
           log LogAlreadyRunning s1
         else
           (let s2 = s1\<lparr>stop_flag := False, th := Some True,
                        spawned := spawned s1 @ [WorkerThread]\<rparr>;
                s3 = start_listener 1 s2;
                s4 = start_listener 2 s3
            in log (LogStarted (current_slot s4) (current_step s4)) s4))"

definition stop :: "Sequencer \<Rightarrow> Sequencer" where
  "stop s =
     (let s1 = s\<lparr>stop_flag := True, plan_done_evt := True, fault_evt := True\<rparr>;
          s2 = stop_listener 1 s1;
          s3 = stop_listener 2 s2
      in log LogStopRequested s3)"

definition pause :: "Sequencer \<Rightarrow> Sequencer" where
  "pause s = s\<lparr>user_pause := True\<rparr>"

definition resume :: "Sequencer \<Rightarrow> Sequencer" where
  "resume s = s\<lparr>user_pause := False\<rparr>"

text \<open>\<open>on_backend_event\<close>, with the event names of the class \<open>BackendEvents\<close> and
  \<open>bool(payload)\<close> as the payload.\<close>

definition on_backend_event :: "string \<Rightarrow> bool \<Rightarrow> Sequencer \<Rightarrow> Sequencer" where
  "on_backend_event ev payload s =
     (if ev = ''FAULT'' then s\<lparr>fault := payload, fault_evt := payload\<rparr>
      else if ev = ''STOPPED'' then s\<lparr>plan_done_evt := True\<rparr>
      else s)"

record state_view =
  slot :: int
  step :: int
  running :: bool
  view_preamble_done :: bool

definition get_state :: "Sequencer \<Rightarrow> state_view" where
  "get_state s =
     \<lparr> slot = current_slot s,
       step = current_step s,
       running = (case th s of Some alive \<Rightarrow> alive | None \<Rightarrow> False),
       view_preamble_done = preamble_done s \<rparr>"

definition reset :: "Sequencer \<Rightarrow> Sequencer" where
  "reset s =
     (let s1 = log LogResetCalled s;
          s2 = s1\<lparr>fault := False, plan_done_evt := False, fault_evt := False,
                  user_pause := False, stop_flag := False\<rparr>;
          s3 = s2\<lparr>tester_done_evt1 := False, tester_done_evt2 := False,
                  tester_result1 := None, tester_result2 := None,
                  tester_operating1 := False, tester_operating2 := False,
                  tester_loaded1 := False, tester_loaded2 := False,
                  current_slot1 := 1, current_slot2 := 1\<rparr>;
          s4 = s3\<lparr>current_slot := 1, current_step := 0, preamble_done := False\<rparr>
      in log LogResetDone s4)"

definition recover :: "Sequencer \<Rightarrow> bool \<times> Sequencer" where
  "recover s = (False, log LogRecoveryBlocked s)"

section \<open>Verdict delivery\<close>

text \<open>\<open>external_test_complete\<close>; \<open>verdict or ""\<close> reads \<open>None\<close> as the empty string.\<close>

definition normalize_verdict :: "string option \<Rightarrow> string" where
  "normalize_verdict verdict =
     (let v = upper (strip (case verdict of None \<Rightarrow> [] | Some t \<Rightarrow> t))
      in if contains ''PASS'' v then ''PASS''
         else if contains ''FAIL'' v then ''FAIL''
         else v)"

definition external_test_complete :: "int \<Rightarrow> string option \<Rightarrow> Sequencer \<Rightarrow> Sequencer" where
  "external_test_complete machine_id verdict s =
     (let v = normalize_verdict verdict
      in if machine_id = 1 then
           (if \<not> awaiting_result1 s then log (LogIgnored 1) s
            else log (LogExternalResult 1 v)
                   (s\<lparr>awaiting_result1 := False, tester_result1 := Some v,
                      tester_done_evt1 := True, tester_operating1 := False\<rparr>))
         else if machine_id = 2 then
           (if \<not> awaiting_result2 s then log (LogIgnored 2) s
            else log (LogExternalResult 2 v)
                   (s\<lparr>awaiting_result2 := False, tester_result2 := Some v,
                      tester_done_evt2 := True, tester_operating2 := False\<rparr>))
         else s)"

section \<open>Calls from other threads\<close>

text \<open>
  The worker runs on its own thread; the operator, the backend and the two listeners
  call into the object from theirs. The calls that arrive while the worker sleeps in
  one of its polling loops are given to the model as lists of events.
\<close>

datatype ext_event =
    EvBackend string bool
  | EvStop
  | EvPause
  | EvResume
  | EvVerdict int "string option"

fun apply_event :: "ext_event \<Rightarrow> Sequencer \<Rightarrow> Sequencer" where
  "apply_event (EvBackend ev payload) s = on_backend_event ev payload s"
| "apply_event EvStop s = stop s"
| "apply_event EvPause s = pause s"
| "apply_event EvResume s = resume s"
| "apply_event (EvVerdict machine_id verdict) s = external_test_complete machine_id verdict s"

fun apply_events :: "ext_event list \<Rightarrow> Sequencer \<Rightarrow> Sequencer" where
  "apply_events [] s = s"
| "apply_events (e # es) s = apply_events es (apply_event e s)"

section \<open>The micro-plan runner\<close>

text \<open>
  What the surroundings do during one call of \<open>_run_micro_plan\<close>: \<open>speed\<close> is
  \<open>int(self.speed_fn())\<close>, or \<open>None\<close> when that raises; \<open>start_ok\<close> tells whether
  \<open>backend.start_plan\<close> returned without raising; \<open>t0\<close> is the first reading of
  \<open>time.time()\<close>; each element of \<open>polls\<close> holds the calls from other threads that
  arrived before one pass of the polling loop and the clock reading of that pass.
  Clock readings are real numbers. The three flags are read at one instant per pass.
\<close>

record plan_script =
  speed :: "int option"
  start_ok :: bool
  t0 :: real
  polls :: "(ext_event list \<times> real) list"

text \<open>One pass of the \<open>while True\<close> loop up to the \<open>sleep\<close>: \<open>Some r\<close> is \<open>return r\<close>.\<close>

definition poll_once :: "string \<Rightarrow> real \<Rightarrow> real \<Rightarrow> real \<Rightarrow> Sequencer \<Rightarrow> bool option \<times> Sequencer" where
  "poll_once plan_name timeout_s start now s =
     (if fault_evt s then (Some False, log (LogPlanFault plan_name) s)
      else if plan_done_evt s then
        (if stop_flag s then (Some False, log (LogPlanFinishedStop plan_name) s)
         else (Some True, log (LogPlanFinished plan_name) s))
      else if now - start > timeout_s then
        (Some False,
         (log (LogPlanTimeout plan_name timeout_s) s)
           \<lparr>backend_calls := backend_calls s @ [BackendStop]\<rparr>)
      else if stop_flag s then (Some False, s)
      else (None, sleep 0.05 s))"

text \<open>
  A call that waits on other threads either returns, or is still inside its polling
  loop, in the state it has reached, when the script of the surroundings ends.
\<close>

datatype 'a outcome = Returned 'a | Polling Sequencer

fun poll_loop :: "string \<Rightarrow> real \<Rightarrow> real \<Rightarrow> (ext_event list \<times> real) list \<Rightarrow> Sequencer
                  \<Rightarrow> (bool \<times> Sequencer) outcome" where
  "poll_loop plan_name timeout_s start [] s = Polling s"
| "poll_loop plan_name timeout_s start ((evs, now) # rest) s =
     (case poll_once plan_name timeout_s start now (apply_events evs s) of
        (Some r, s') \<Rightarrow> Returned (r, s')
      | (None, s') \<Rightarrow> poll_loop plan_name timeout_s start rest s')"

definition run_micro_plan :: "string \<Rightarrow> real \<Rightarrow> plan_script \<Rightarrow> Sequencer
                              \<Rightarrow> (bool \<times> Sequencer) outcome" where
  "run_micro_plan plan_name timeout_s ps s =
     (let s1 = (log (LogStartPlan plan_name) s)\<lparr>plan_done_evt := False, fault_evt := False\<rparr>
      in case speed ps of
           None \<Rightarrow> Returned (False, log LogStartPlanError s1)
         | Some sp \<Rightarrow>
             (let s2 = s1\<lparr>backend_calls := backend_calls s1 @ [StartPlan plan_name sp]\<rparr>
              in if \<not> start_ok ps then Returned (False, log LogStartPlanError s2)
                 else poll_loop plan_name timeout_s (t0 ps) (polls ps) s2))"

section \<open>The worker\<close>

text \<open>\<open>_wait_if_user_paused\<close>: each element of the script holds the calls from other
  threads that arrive during one \<open>sleep(0.05)\<close>.\<close>

fun wait_if_user_paused :: "ext_event list list \<Rightarrow> Sequencer \<Rightarrow> Sequencer outcome" where
  "wait_if_user_paused [] s =
     (if user_pause s \<and> \<not> stop_flag s then Polling s else Returned s)"
| "wait_if_user_paused (evs # rest) s =
     (if user_pause s \<and> \<not> stop_flag s
      then wait_if_user_paused rest (apply_events evs (sleep 0.05 s))
      else Returned s)"

text \<open>\<open>_test_comms\<close>: the outcome of \<open>ping_serial\<close> for each tester is given by the
  surroundings: the write succeeded, there is no open port, or the write raised.\<close>

datatype ping = PingOk | PingNoPort | PingError

definition ping_serial :: "int \<Rightarrow> ping \<Rightarrow> Sequencer \<Rightarrow> bool \<times> Sequencer" where
  "ping_serial mid p s =
     (case p of
        PingOk \<Rightarrow> (True, s)
      | PingNoPort \<Rightarrow> (False, s)
      | PingError \<Rightarrow> (False, log (LogPingFailed mid) s))"

definition test_comms :: "ping \<Rightarrow> ping \<Rightarrow> Sequencer \<Rightarrow> Sequencer" where
  "test_comms p1 p2 s =
     (case ping_serial 1 p1 s of (ok1, s1) \<Rightarrow>
        (case ping_serial 2 p2 (s1\<lparr>tester_commready1 := ok1\<rparr>) of (ok2, s2) \<Rightarrow>
           log (LogCommCheck ok1 ok2) (s2\<lparr>tester_commready2 := ok2\<rparr>)))"

text \<open>The statements of \<open>_worker\<close> before the \<open>try\<close>.\<close>

definition worker_prologue :: "ping \<Rightarrow> ping \<Rightarrow> Sequencer \<Rightarrow> Sequencer" where
  "worker_prologue p1 p2 s =
     (let s1 = log (LogWorkerAlive (stop_flag s)) s;
          s2 = test_comms p1 p2 s1;
          s3 = log (LogCommReady (tester_commready1 s2) (tester_commready2 s2)) s2
      in log (LogTraySizes (total_slots1 (cfg s3)) (total_slots2 (cfg s3))) s3)"

text \<open>
  One pass of the \<open>while\<close> loop. A guarded block takes the flag \<open>progressed\<close>, the
  scripts of the plans still to be run in this pass and the object; it goes on to the
  next statement (\<open>Next\<close>), leaves the loop (\<open>Break\<close>), or is still inside a plan
  when the script ends (\<open>Blocked\<close>).
\<close>

datatype 'a flow = Next 'a | Break Sequencer | Blocked Sequencer

definition then_do :: "'a flow \<Rightarrow> ('a \<Rightarrow> 'b flow) \<Rightarrow> 'b flow" where
  "then_do m f = (case m of Next x \<Rightarrow> f x | Break s \<Rightarrow> Break s | Blocked s \<Rightarrow> Blocked s)"

definition run_next :: "string \<Rightarrow> real \<Rightarrow> plan_script list \<Rightarrow> Sequencer
                        \<Rightarrow> (bool \<times> plan_script list \<times> Sequencer) outcome" where
  "run_next plan_name timeout_s ps s =
     (case ps of
        [] \<Rightarrow> Polling s
      | p # rest \<Rightarrow>
          (case run_micro_plan plan_name timeout_s p s of
             Polling s' \<Rightarrow> Polling s'
           | Returned (ok, s') \<Rightarrow> Returned (ok, rest, s')))"

definition absorb :: "Sequencer \<Rightarrow> Sequencer" where
  "absorb s =
     (let s1 = (if tester_done_evt1 s
                then s\<lparr>tester_done_evt1 := False, tester_operating1 := False\<rparr> else s)
      in if tester_done_evt2 s1
         then s1\<lparr>tester_done_evt2 := False, tester_operating2 := False\<rparr> else s1)"

definition m1_unload_guard :: "bool \<Rightarrow> Sequencer \<Rightarrow> bool" where
  "m1_unload_guard progressed s =
     (tester_commready1 s \<and> \<not> progressed \<and> \<not> tester_operating1 s \<and> tester_loaded1 s
      \<and> tester_result1 s \<noteq> None)"

definition m1_load_guard :: "bool \<Rightarrow> Sequencer \<Rightarrow> bool" where
  "m1_load_guard progressed s =
     (tester_commready1 s \<and> \<not> progressed \<and> \<not> tester_operating1 s \<and> \<not> tester_loaded1 s
      \<and> current_slot1 s \<le> total_slots1 (cfg s))"

definition m2_unload_guard :: "bool \<Rightarrow> Sequencer \<Rightarrow> bool" where
  "m2_unload_guard progressed s =
     (tester_commready2 s \<and> \<not> progressed \<and> \<not> tester_operating2 s \<and> tester_loaded2 s
      \<and> tester_result2 s \<noteq> None)"

definition m2_load_guard :: "bool \<Rightarrow> Sequencer \<Rightarrow> bool" where
  "m2_load_guard progressed s =
     (tester_commready2 s \<and> \<not> progressed \<and> \<not> tester_operating2 s \<and> \<not> tester_loaded2 s
      \<and> current_slot2 s \<le> total_slots2 (cfg s))"

text \<open>The second half of an unload block: run the place plan, then clear load and
  result.\<close>

definition m1_place :: "string \<Rightarrow> plan_script list \<Rightarrow> Sequencer
                        \<Rightarrow> (bool \<times> plan_script list \<times> Sequencer) flow" where
  "m1_place plan ps s =
     (case run_next plan (plan_timeout_s (cfg s)) ps s of
        Polling s' \<Rightarrow> Blocked s'
      | Returned (ok, ps', s') \<Rightarrow>
          if \<not> ok then Break s'
          else Next (True, ps', s'\<lparr>tester_loaded1 := False, tester_result1 := None\<rparr>))"

definition m2_place :: "string \<Rightarrow> plan_script list \<Rightarrow> Sequencer
                        \<Rightarrow> (bool \<times> plan_script list \<times> Sequencer) flow" where
  "m2_place plan ps s =
     (case run_next plan (plan_timeout_s (cfg s)) ps s of
        Polling s' \<Rightarrow> Blocked s'
      | Returned (ok, ps', s') \<Rightarrow>
          if \<not> ok then Break s'
          else Next (True, ps', s'\<lparr>tester_loaded2 := False, tester_result2 := None\<rparr>))"

text \<open>\<open>MACHINE 1: UNLOAD on result\<close>. Were \<open>tester_result1\<close> to be \<open>None\<close> after the
  open plan, \<open>.strip()\<close> would raise and the exception would leave the loop.\<close>

definition m1_unload :: "bool \<times> plan_script list \<times> Sequencer
                         \<Rightarrow> (bool \<times> plan_script list \<times> Sequencer) flow" where
  "m1_unload c =
     (case c of (progressed, ps, s) \<Rightarrow>
        if m1_unload_guard progressed s then
          (case run_next (plan_open_machine1 (cfg s)) (plan_timeout_s (cfg s)) ps
                  (s\<lparr>attempts := attempts s @ [M1_UNLOAD]\<rparr>) of
             Polling s1 \<Rightarrow> Blocked s1
           | Returned (ok, ps1, s1) \<Rightarrow>
               if \<not> ok then Break s1
               else
                 (case tester_result1 s1 of
                    None \<Rightarrow> Break s1
                  | Some r \<Rightarrow>
                      (let verdict = upper (strip r)
                       in if verdict = ''PASS'' then
                            m1_place (plan_place_pass_fmt1 (cfg s1)) ps1 s1
                          else if verdict = ''FAIL'' then
                            m1_place (plan_place_fail_fmt1 (cfg s1)) ps1 s1
                          else Break (log (LogInvalidResult 1 r) s1))))
        else Next c)"

text \<open>\<open>MACHINE 1: LOAD next PCB if idle and slots remain\<close>.\<close>

definition m1_load :: "bool \<times> plan_script list \<times> Sequencer
                       \<Rightarrow> (bool \<times> plan_script list \<times> Sequencer) flow" where
  "m1_load c =
     (case c of (progressed, ps, s) \<Rightarrow>
        if m1_load_guard progressed s then
          (case run_next (format_slot (plan_pick_fmt1 (cfg s)) (current_slot1 s))
                  (plan_timeout_s (cfg s)) ps (s\<lparr>attempts := attempts s @ [M1_LOAD]\<rparr>) of
             Polling s1 \<Rightarrow> Blocked s1
           | Returned (ok, ps1, s1) \<Rightarrow>
               if \<not> ok then Break s1
               else
                 (case run_next (plan_close_machine1 (cfg s1)) (plan_timeout_s (cfg s1)) ps1 s1 of
                    Polling s2 \<Rightarrow> Blocked s2
                  | Returned (ok2, ps2, s2) \<Rightarrow>
                      if \<not> ok2 then Break s2
                      else Next (True, ps2,
                             s2\<lparr>awaiting_result1 := True,
                                current_slot1 := current_slot1 s2 + 1,
                                tester_operating1 := True,
                                tester_loaded1 := True\<rparr>)))
        else Next c)"

text \<open>\<open>MACHINE 2: UNLOAD on result\<close>.\<close>

definition m2_unload :: "bool \<times> plan_script list \<times> Sequencer
                         \<Rightarrow> (bool \<times> plan_script list \<times> Sequencer) flow" where
  "m2_unload c =
     (case c of (progressed, ps, s) \<Rightarrow>
        if m2_unload_guard progressed s then
          (case run_next (plan_open_machine2 (cfg s)) (plan_timeout_s (cfg s)) ps
                  (s\<lparr>attempts := attempts s @ [M2_UNLOAD]\<rparr>) of
             Polling s1 \<Rightarrow> Blocked s1
           | Returned (ok, ps1, s1) \<Rightarrow>
               if \<not> ok then Break s1
               else
                 (case tester_result2 s1 of
                    None \<Rightarrow> Break s1
                  | Some r \<Rightarrow>
                      (let verdict = upper (strip r)
                       in if verdict = ''PASS'' then
                            m2_place (plan_place_pass_fmt2 (cfg s1)) ps1 s1
                          else if verdict = ''FAIL'' then
                            m2_place (plan_place_fail_fmt2 (cfg s1)) ps1 s1
                          else Break (log (LogInvalidResult 2 r) s1))))
        else Next c)"

text \<open>\<open>MACHINE 2: LOAD next PCB if idle and slots remain\<close>.\<close>

definition m2_load :: "bool \<times> plan_script list \<times> Sequencer
                       \<Rightarrow> (bool \<times> plan_script list \<times> Sequencer) flow" where
  "m2_load c =
     (case c of (progressed, ps, s) \<Rightarrow>
        if m2_load_guard progressed s then
          (case run_next (format_slot (plan_pick_fmt2 (cfg s)) (current_slot2 s))
                  (plan_timeout_s (cfg s)) ps (s\<lparr>attempts := attempts s @ [M2_LOAD]\<rparr>) of
             Polling s1 \<Rightarrow> Blocked s1
           | Returned (ok, ps1, s1) \<Rightarrow>
               if \<not> ok then Break s1
               else
                 (case run_next (plan_close_machine2 (cfg s1)) (plan_timeout_s (cfg s1)) ps1 s1 of
                    Polling s2 \<Rightarrow> Blocked s2
                  | Returned (ok2, ps2, s2) \<Rightarrow>
                      if \<not> ok2 then Break s2
                      else Next (True, ps2,
                             s2\<lparr>awaiting_result2 := True,
                                current_slot2 := current_slot2 s2 + 1,
                                tester_operating2 := True,
                                tester_loaded2 := True\<rparr>)))
        else Next c)"

text \<open>The exit test and the idle sleep at the end of a pass.\<close>

definition m1_done :: "Sequencer \<Rightarrow> bool" where
  "m1_done s = (current_slot1 s > total_slots1 (cfg s) \<and> \<not> tester_loaded1 s
                \<and> \<not> tester_operating1 s)"

definition m2_done :: "Sequencer \<Rightarrow> bool" where
  "m2_done s = (current_slot2 s > total_slots2 (cfg s) \<and> \<not> tester_loaded2 s
                \<and> \<not> tester_operating2 s)"

definition finish :: "bool \<times> plan_script list \<times> Sequencer \<Rightarrow> Sequencer flow" where
  "finish c =
     (case c of (progressed, ps, s) \<Rightarrow>
        if m1_done s \<and> m2_done s then Break (log LogAllDone s)
        else if \<not> progressed then Next (sleep 0.02 s)
        else Next s)"

text \<open>
  What the surroundings do during one pass of the loop: the calls arriving during the
  pause wait, the scripts of the plans run in this pass, in order, and the calls that
  arrive between the end of this pass and the next test of the loop condition.
\<close>

record tick_script =
  pause_polls :: "ext_event list list"
  plans :: "plan_script list"
  arrivals :: "ext_event list"

definition loop_body :: "tick_script \<Rightarrow> Sequencer \<Rightarrow> Sequencer flow" where
  "loop_body ts s =
     then_do (then_do (then_do (then_do
       (m1_unload (False, plans ts, absorb s)) m1_load) m2_unload) m2_load) finish"

definition iteration :: "tick_script \<Rightarrow> Sequencer \<Rightarrow> Sequencer flow" where
  "iteration ts s =
     (case wait_if_user_paused (pause_polls ts) s of
        Polling s1 \<Rightarrow> Blocked s1
      | Returned s1 \<Rightarrow> if stop_flag s1 then Break s1 else loop_body ts s1)"

fun worker_loop :: "tick_script list \<Rightarrow> Sequencer \<Rightarrow> Sequencer outcome" where
  "worker_loop [] s = (if stop_flag s then Returned s else Polling s)"
| "worker_loop (ts # rest) s =
     (if stop_flag s then Returned s
      else (case iteration ts s of
              Blocked s' \<Rightarrow> Polling s'
            | Break s' \<Rightarrow> Returned s'
            | Next s' \<Rightarrow> worker_loop rest (apply_events (arrivals ts) s')))"

text \<open>The \<open>finally\<close> clause of \<open>_worker\<close>, and \<open>_worker\<close> as a whole.\<close>

definition worker_finally :: "Sequencer \<Rightarrow> Sequencer" where
  "worker_finally s =
     (let s1 = log LogEnded s;
          s2 = stop_listener 1 s1;
          s3 = stop_listener 2 s2;
          s4 = reset s3
      in s4\<lparr>th := None\<rparr>)"

definition worker :: "ping \<Rightarrow> ping \<Rightarrow> tick_script list \<Rightarrow> Sequencer \<Rightarrow> Sequencer outcome" where
  "worker p1 p2 scripts s =
     (case worker_loop scripts (worker_prologue p1 p2 s) of
        Polling s' \<Rightarrow> Polling s'
      | Returned s' \<Rightarrow> Returned (worker_finally s'))"

section \<open>Notions used in the statements\<close>

text \<open>The object held by a result of each kind.\<close>

definition plan_state :: "(bool \<times> Sequencer) outcome \<Rightarrow> Sequencer" where
  "plan_state r = (case r of Returned (ok, s) \<Rightarrow> s | Polling s \<Rightarrow> s)"

definition plan_result :: "(bool \<times> Sequencer) outcome \<Rightarrow> bool option" where
  "plan_result r = (case r of Returned (ok, s) \<Rightarrow> Some ok | Polling s \<Rightarrow> None)"

definition next_state :: "(bool \<times> plan_script list \<times> Sequencer) outcome \<Rightarrow> Sequencer" where
  "next_state r = (case r of Returned (ok, ps, s) \<Rightarrow> s | Polling s \<Rightarrow> s)"

definition block_state :: "(bool \<times> plan_script list \<times> Sequencer) flow \<Rightarrow> Sequencer" where
  "block_state r = (case r of Next (p, ps, s) \<Rightarrow> s | Break s \<Rightarrow> s | Blocked s \<Rightarrow> s)"

definition flow_state :: "Sequencer flow \<Rightarrow> Sequencer" where
  "flow_state r = (case r of Next s \<Rightarrow> s | Break s \<Rightarrow> s | Blocked s \<Rightarrow> s)"

definition outcome_state :: "Sequencer outcome \<Rightarrow> Sequencer" where
  "outcome_state r = (case r of Returned s \<Rightarrow> s | Polling s \<Rightarrow> s)"

definition has_returned :: "'a outcome \<Rightarrow> bool" where
  "has_returned r = (case r of Returned x \<Rightarrow> True | Polling s \<Rightarrow> False)"

definition is_next :: "'a flow \<Rightarrow> bool" where
  "is_next r = (case r of Next x \<Rightarrow> True | Break s \<Rightarrow> False | Blocked s \<Rightarrow> False)"

text \<open>The object when \<open>backend.start_plan\<close> has returned, before the first pass of
  the polling loop of \<open>_run_micro_plan\<close>.\<close>

definition after_start :: "string \<Rightarrow> int \<Rightarrow> Sequencer \<Rightarrow> Sequencer" where
  "after_start plan_name sp s =
     (log (LogStartPlan plan_name) s)
       \<lparr>plan_done_evt := False, fault_evt := False,
         backend_calls := backend_calls s @ [StartPlan plan_name sp]\<rparr>"

text \<open>The names of the plans started on the backend, in order.\<close>

fun started :: "backend_call list \<Rightarrow> string list" where
  "started [] = []"
| "started (StartPlan name sp # cs) = name # started cs"
| "started (BackendStop # cs) = started cs"

text \<open>A sequence of verdict deliveries \<open>(machine_id, token)\<close>.\<close>

fun deliver_all :: "(int \<times> string option) list \<Rightarrow> Sequencer \<Rightarrow> Sequencer" where
  "deliver_all [] s = s"
| "deliver_all ((machine_id, verdict) # ds) s =
     deliver_all ds (external_test_complete machine_id verdict s)"

text \<open>The first transition, in the scan order of the loop, whose guard holds.\<close>

definition first_eligible :: "Sequencer \<Rightarrow> transition option" where
  "first_eligible s =
     (if m1_unload_guard False s then Some M1_UNLOAD
      else if m1_load_guard False s then Some M1_LOAD
      else if m2_unload_guard False s then Some M2_UNLOAD
      else if m2_load_guard False s then Some M2_LOAD
      else None)"

text \<open>The transitions of one station among those attempted.\<close>

definition m1_attempts :: "Sequencer \<Rightarrow> transition list" where
  "m1_attempts s = filter (\<lambda>t. t = M1_UNLOAD \<or> t = M1_LOAD) (attempts s)"

definition m2_attempts :: "Sequencer \<Rightarrow> transition list" where
  "m2_attempts s = filter (\<lambda>t. t = M2_UNLOAD \<or> t = M2_LOAD) (attempts s)"

text \<open>A stored verdict is empty, or it is a normalised token, one that \<open>strip\<close> and
  \<open>upper\<close> leave as it is, and is \<open>PASS\<close>, \<open>FAIL\<close>, or contains neither.\<close>

definition verdict_ok :: "string option \<Rightarrow> bool" where
  "verdict_ok r =
     (case r of
        None \<Rightarrow> True
      | Some v \<Rightarrow> upper (strip v) = v
                  \<and> (v = ''PASS'' \<or> v = ''FAIL''
                       \<or> (\<not> contains ''PASS'' v \<and> \<not> contains ''FAIL'' v)))"

text \<open>What the calls from other threads and the plan runner leave as it is: the
  configuration, the load and slot bookkeeping, the comm flags, the record of the
  blocks entered; a testing flag is never raised; a station that is not awaiting a
  result keeps its verdict; a well-formed verdict stays well-formed.\<close>

definition env_frame :: "Sequencer \<Rightarrow> Sequencer \<Rightarrow> bool" where
  "env_frame s s' =
     (cfg s' = cfg s
      \<and> tester_loaded1 s' = tester_loaded1 s \<and> tester_loaded2 s' = tester_loaded2 s
      \<and> current_slot1 s' = current_slot1 s \<and> current_slot2 s' = current_slot2 s
      \<and> tester_commready1 s' = tester_commready1 s
      \<and> tester_commready2 s' = tester_commready2 s
      \<and> attempts s' = attempts s
      \<and> (tester_operating1 s' \<longrightarrow> tester_operating1 s)
      \<and> (tester_operating2 s' \<longrightarrow> tester_operating2 s)
      \<and> (\<not> awaiting_result1 s \<longrightarrow>
            \<not> awaiting_result1 s' \<and> tester_result1 s' = tester_result1 s)
      \<and> (\<not> awaiting_result2 s \<longrightarrow>
            \<not> awaiting_result2 s' \<and> tester_result2 s' = tester_result2 s)
      \<and> (verdict_ok (tester_result1 s) \<longrightarrow> verdict_ok (tester_result1 s'))
      \<and> (verdict_ok (tester_result2 s) \<longrightarrow> verdict_ok (tester_result2 s')))"

text \<open>A block that was entered: it recorded its transition, and if it went on to the
  next statement it had set \<open>progressed\<close>. \<open>a\<close> is the record of blocks entered
  afterwards.\<close>

definition block_attempted :: "transition list \<Rightarrow> (bool \<times> plan_script list \<times> Sequencer) flow \<Rightarrow> bool" where
  "block_attempted a r =
     (case r of
        Next (p, ps, s) \<Rightarrow> p \<and> attempts s = a
      | Break s \<Rightarrow> attempts s = a
      | Blocked s \<Rightarrow> attempts s = a)"

text \<open>What every step other than a station's own two blocks leaves of that station:
  the configuration, its load flag and slot index, its transitions among those
  attempted; its testing flag is not raised.\<close>

definition station1_kept :: "Sequencer \<Rightarrow> Sequencer \<Rightarrow> bool" where
  "station1_kept s s' =
     (cfg s' = cfg s \<and> tester_loaded1 s' = tester_loaded1 s
      \<and> current_slot1 s' = current_slot1 s
      \<and> (tester_operating1 s' \<longrightarrow> tester_operating1 s)
      \<and> m1_attempts s' = m1_attempts s)"

definition station2_kept :: "Sequencer \<Rightarrow> Sequencer \<Rightarrow> bool" where
  "station2_kept s s' =
     (cfg s' = cfg s \<and> tester_loaded2 s' = tester_loaded2 s
      \<and> current_slot2 s' = current_slot2 s
      \<and> (tester_operating2 s' \<longrightarrow> tester_operating2 s)
      \<and> m2_attempts s' = m2_attempts s)"

text \<open>The invalid-result lines of a log, as pairs of machine and stored verdict.\<close>

fun invalid_reports :: "log_line list \<Rightarrow> (int \<times> string) list" where
  "invalid_reports [] = []"
| "invalid_reports (LogInvalidResult m r # ls) = (m, r) # invalid_reports ls"
| "invalid_reports (l # ls) = invalid_reports ls"

definition verdicts_ok :: "Sequencer \<Rightarrow> bool" where
  "verdicts_ok s = (verdict_ok (tester_result1 s) \<and> verdict_ok (tester_result2 s))"

text \<open>The states an object can be in: after construction, after a call from another
  thread, and after each stage of the worker.\<close>

inductive reachable :: "Sequencer \<Rightarrow> bool" where
  reach_init: "reachable (init config)"
| reach_event: "reachable s \<Longrightarrow> reachable (apply_event e s)"
| reach_start: "reachable s \<Longrightarrow> reachable (start_seq_worker total_slots s)"
| reach_reset: "reachable s \<Longrightarrow> reachable (reset s)"
| reach_prologue: "reachable s \<Longrightarrow> reachable (worker_prologue p1 p2 s)"
| reach_plan: "reachable s \<Longrightarrow> reachable (plan_state (run_micro_plan plan_name timeout_s ps s))"
| reach_iteration: "reachable s \<Longrightarrow> reachable (flow_state (iteration ts s))"
| reach_finally: "reachable s \<Longrightarrow> reachable (worker_finally s)"

text \<open>
  A run used in the examples: a plan that the backend reports as stopped at the first
  poll, one second after its start, and a pass of the loop in which two such plans are
  run and the operator calls \<open>stop\<close> afterwards.
\<close>

definition completing_plan :: plan_script where
  "completing_plan =
     \<lparr> speed = Some 100, start_ok = True, t0 = 0,
       polls = [([EvBackend ''STOPPED'' False], 1)] \<rparr>"

definition faulting_plan :: plan_script where
  "faulting_plan =
     \<lparr> speed = Some 100, start_ok = True, t0 = 0,
       polls = [([EvBackend ''FAULT'' True], 1)] \<rparr>"

definition quiet_tick :: tick_script where
  "quiet_tick = \<lparr> pause_polls = [], plans = [completing_plan, completing_plan], arrivals = [] \<rparr>"

definition stopped_tick :: tick_script where
  "stopped_tick =
     \<lparr> pause_polls = [], plans = [completing_plan, completing_plan], arrivals = [EvStop] \<rparr>"

definition error9_tick :: tick_script where
  "error9_tick =
     \<lparr> pause_polls = [], plans = [completing_plan, completing_plan],
       arrivals = [EvVerdict 1 (Some ''ERROR_9'')] \<rparr>"

definition fault_tick :: tick_script where
  "fault_tick = \<lparr> pause_polls = [], plans = [faulting_plan], arrivals = [] \<rparr>"

definition started_object :: Sequencer where
  "started_object = worker_prologue PingOk PingOk (start_seq_worker None (init default_config))"

definition loaded_object :: Sequencer where
  "loaded_object = flow_state (iteration quiet_tick started_object)"

definition both_loaded_object :: Sequencer where
  "both_loaded_object = flow_state (iteration quiet_tick loaded_object)"

section \<open>Lemmas\<close>

subsection \<open>Strings\<close>

lemma upper_char_idem: "upper_char (upper_char c) = upper_char c"
  by (simp add: upper_char_def)

lemma is_space_upper_char: "is_space (upper_char c) = is_space c"
  by (simp add: upper_char_def is_space_def)

lemma upper_idem: "upper (upper x) = upper x"
  by (simp add: upper_def upper_char_idem)

lemma is_space_comp: "is_space \<circ> upper_char = is_space"
  by (rule ext) (simp add: is_space_upper_char)

lemma dropWhile_upper:
  "dropWhile is_space (map upper_char x) = map upper_char (dropWhile is_space x)"
  by (simp add: dropWhile_map is_space_comp)

lemma strip_upper: "strip (upper x) = upper (strip x)"
  unfolding strip_def upper_def by (simp add: dropWhile_upper rev_map)

lemma contains_sublist: "contains sub s = sublist sub s"
  by (induction s) (auto simp: sublist_Cons_right)

lemma sublist_strip: "sublist (strip v) v"
proof -
  have "suffix (dropWhile is_space v) v" by (rule suffix_dropWhile)
  moreover have "prefix (strip v) (dropWhile is_space v)"
    unfolding strip_def
    by (metis suffix_dropWhile suffix_to_prefix rev_rev_ident)
  ultimately show ?thesis
    by (meson prefix_imp_sublist suffix_imp_sublist sublist_order.order_trans)
qed

lemma strip_contains: "strip v = w \<Longrightarrow> contains w v"
  using sublist_strip[of v] by (simp add: contains_sublist)

lemma normalize_verdict_cases:
  "normalize_verdict t = ''PASS'' \<or> normalize_verdict t = ''FAIL'' \<or>
   (normalize_verdict t = upper (strip (case t of None \<Rightarrow> [] | Some x \<Rightarrow> x))
    \<and> \<not> contains ''PASS'' (normalize_verdict t) \<and> \<not> contains ''FAIL'' (normalize_verdict t))"
  by (simp add: normalize_verdict_def Let_def)

lemma upper_normalize: "upper (normalize_verdict t) = normalize_verdict t"
  by (simp add: normalize_verdict_def Let_def upper_idem) (simp add: upper_def upper_char_def)

lemma dropWhile_front:
  "dropWhile P (rev (dropWhile P (rev (dropWhile P s)))) = rev (dropWhile P (rev (dropWhile P s)))"
proof -
  let ?y = "dropWhile P s"
  let ?w = "dropWhile P (rev ?y)"
  have y: "?y = rev ?w @ rev (takeWhile P (rev ?y))"
    by (metis rev_append rev_rev_ident takeWhile_dropWhile_id)
  show ?thesis
  proof (cases "?w = []")
    case True
    then show ?thesis by (simp only: rev.simps dropWhile.simps)
  next
    case False
    then have ne: "rev ?w \<noteq> []" by simp
    then have "hd (rev ?w) = hd ?y" using y by (metis hd_append2)
    moreover have "?y \<noteq> []" using ne y by (metis append_is_Nil_conv)
    then have "\<not> P (hd ?y)" by (rule hd_dropWhile)
    ultimately have "\<not> P (hd (rev ?w))" by simp
    then show ?thesis using ne by (simp only: dropWhile_eq_self_iff) blast
  qed
qed

lemma strip_idem: "strip (strip s) = strip s"
  unfolding strip_def by (simp only: dropWhile_front rev_rev_ident dropWhile_idem)

lemma strip_normalize: "strip (normalize_verdict t) = normalize_verdict t"
  by (simp add: normalize_verdict_def Let_def strip_upper strip_idem)
     (simp add: strip_def is_space_def)

lemma verdict_ok_normalize: "verdict_ok (Some (normalize_verdict t))"
  using normalize_verdict_cases[of t]
  by (auto simp: verdict_ok_def strip_normalize upper_normalize)

lemma upper_strip_normalize:
  "upper (strip (normalize_verdict t)) = ''PASS'' \<longleftrightarrow> normalize_verdict t = ''PASS''"
  "upper (strip (normalize_verdict t)) = ''FAIL'' \<longleftrightarrow> normalize_verdict t = ''FAIL''"
proof -
  have e: "upper (strip (normalize_verdict t)) = strip (normalize_verdict t)"
    by (simp add: strip_upper[symmetric] upper_normalize)
  have p: "strip ''PASS'' = ''PASS''" "strip ''FAIL'' = ''FAIL''"
    by (simp_all add: strip_def is_space_def)
  show "upper (strip (normalize_verdict t)) = ''PASS'' \<longleftrightarrow> normalize_verdict t = ''PASS''"
    using normalize_verdict_cases[of t] strip_contains[of "normalize_verdict t" "''PASS''"] p
    unfolding e by auto
  show "upper (strip (normalize_verdict t)) = ''FAIL'' \<longleftrightarrow> normalize_verdict t = ''FAIL''"
    using normalize_verdict_cases[of t] strip_contains[of "normalize_verdict t" "''FAIL''"] p
    unfolding e by auto
qed

subsection \<open>The frame of calls from other threads\<close>

lemma env_frame_refl: "env_frame s s"
  by (simp add: env_frame_def)

lemma env_frame_trans: "env_frame s s' \<Longrightarrow> env_frame s' s'' \<Longrightarrow> env_frame s s''"
  unfolding env_frame_def by metis

lemma env_frame_log: "env_frame s (log m s)"
  by (simp add: env_frame_def log_def)

lemma env_frame_sleep: "env_frame s (sleep d s)"
  by (simp add: env_frame_def sleep_def)

lemma env_frame_on_backend_event: "env_frame s (on_backend_event ev payload s)"
  by (simp add: env_frame_def on_backend_event_def)

lemma env_frame_stop: "env_frame s (stop s)"
  by (simp add: env_frame_def stop_def stop_listener_def log_def Let_def)

lemma env_frame_pause: "env_frame s (pause s)"
  by (simp add: env_frame_def pause_def)

lemma env_frame_resume: "env_frame s (resume s)"
  by (simp add: env_frame_def resume_def)

lemma env_frame_external_test_complete: "env_frame s (external_test_complete m v s)"
  by (simp add: env_frame_def external_test_complete_def log_def Let_def verdict_ok_normalize)

lemma env_frame_apply_event: "env_frame s (apply_event e s)"
  by (cases e)
     (simp_all add: env_frame_on_backend_event env_frame_stop env_frame_pause env_frame_resume
        env_frame_external_test_complete)

lemma env_frame_apply_events: "env_frame s (apply_events es s)"
proof (induction es arbitrary: s)
  case Nil
  show ?case by (simp add: env_frame_refl)
next
  case (Cons e es)
  show ?case
    using env_frame_trans[OF env_frame_apply_event[of s e] Cons[of "apply_event e s"]] by simp
qed

lemma env_frame_poll_once: "env_frame s (snd (poll_once p t st now s))"
  by (simp add: poll_once_def env_frame_def log_def sleep_def)

lemma env_frame_poll_loop: "env_frame s (plan_state (poll_loop p t st ps s))"
proof (induction ps arbitrary: s)
  case Nil
  show ?case by (simp add: plan_state_def env_frame_refl)
next
  case (Cons a ps)
  obtain evs now where a: "a = (evs, now)" by (cases a)
  let ?s1 = "apply_events evs s"
  have f1: "env_frame s (snd (poll_once p t st now ?s1))"
    using env_frame_trans[OF env_frame_apply_events env_frame_poll_once] .
  show ?case
  proof (cases "poll_once p t st now ?s1")
    case (Pair r s')
    show ?thesis
    proof (cases r)
      case None
      then show ?thesis
        using Pair a f1 env_frame_trans[OF _ Cons[of s']] by simp
    next
      case (Some b)
      then show ?thesis using Pair a f1 by (simp add: plan_state_def)
    qed
  qed
qed

lemma env_frame_upd_events:
  "env_frame s (s\<lparr>plan_done_evt := a, fault_evt := b\<rparr>)"
  "env_frame s (s\<lparr>backend_calls := c\<rparr>)"
  by (simp_all add: env_frame_def)

lemma env_frame_run_micro_plan: "env_frame s (plan_state (run_micro_plan p t ps s))"
proof -
  let ?s1 = "(log (LogStartPlan p) s)\<lparr>plan_done_evt := False, fault_evt := False\<rparr>"
  have f1: "env_frame s ?s1"
    using env_frame_trans[OF env_frame_log env_frame_upd_events(1)] .
  show ?thesis
  proof (cases "speed ps")
    case None
    then show ?thesis
      using env_frame_trans[OF f1 env_frame_log]
      by (simp add: run_micro_plan_def plan_state_def Let_def)
  next
    case (Some sp)
    let ?s2 = "?s1\<lparr>backend_calls := backend_calls ?s1 @ [StartPlan p sp]\<rparr>"
    have f2: "env_frame s ?s2"
      using env_frame_trans[OF f1 env_frame_upd_events(2)] .
    show ?thesis
    proof (cases "start_ok ps")
      case True
      then show ?thesis
        using Some env_frame_trans[OF f2 env_frame_poll_loop[of ?s2 p t "t0 ps" "polls ps"]]
        by (simp add: run_micro_plan_def Let_def)
    next
      case False
      then show ?thesis
        using Some env_frame_trans[OF f2 env_frame_log]
        by (simp add: run_micro_plan_def plan_state_def Let_def)
    qed
  qed
qed

lemma env_frame_run_next: "env_frame s (next_state (run_next p t ps s))"
proof (cases ps)
  case Nil
  then show ?thesis by (simp add: run_next_def next_state_def env_frame_refl)
next
  case (Cons a rest)
  then show ?thesis
    using env_frame_run_micro_plan[of s p t a]
    by (auto simp: run_next_def next_state_def plan_state_def split: outcome.splits)
qed

lemma run_next_Returned: "run_next p t ps s = Returned (ok, ps', s') \<Longrightarrow> env_frame s s'"
  using env_frame_run_next[of s p t ps] by (simp add: next_state_def)

lemma run_next_Polling: "run_next p t ps s = Polling s' \<Longrightarrow> env_frame s s'"
  using env_frame_run_next[of s p t ps] by (simp add: next_state_def)

lemma env_frame_wait: "env_frame s (outcome_state (wait_if_user_paused pp s))"
proof (induction pp arbitrary: s)
  case Nil
  show ?case by (simp add: outcome_state_def env_frame_refl)
next
  case (Cons evs pp)
  show ?case
    using env_frame_trans[OF env_frame_trans[OF env_frame_sleep env_frame_apply_events]
        Cons[of "apply_events evs (sleep 0.05 s)"]]
    by (simp add: outcome_state_def env_frame_refl)
qed

lemma env_frame_absorb: "env_frame s (absorb s)"
  by (simp add: env_frame_def absorb_def Let_def)


section \<open>The micro-plan runner resolves a poll by priority\<close>

lemma poll_loop_success_state:
  "poll_loop p t st ps s = Returned (True, s') \<Longrightarrow>
   plan_done_evt s' \<and> \<not> fault_evt s' \<and> \<not> stop_flag s'"
proof (induction ps arbitrary: s)
  case Nil
  then show ?case by simp
next
  case (Cons a ps)
  obtain evs now where a: "a = (evs, now)" by (cases a)
  show ?case
  proof (cases "fst (poll_once p t st now (apply_events evs s))")
    case None
    then show ?thesis
      using Cons.prems a Cons.IH[of "snd (poll_once p t st now (apply_events evs s))"]
      by (simp split: prod.splits)
  next
    case (Some b)
    then show ?thesis
      using Cons.prems a
      by (auto simp: poll_once_def log_def split: prod.splits if_splits)
  qed
qed

lemma run_micro_plan_started:
  "speed ps = Some sp \<Longrightarrow> start_ok ps \<Longrightarrow>
   run_micro_plan p t ps s = poll_loop p t (t0 ps) (polls ps) (after_start p sp s)"
  by (simp add: run_micro_plan_def after_start_def log_def Let_def)

lemma run_micro_plan_not_started:
  "speed ps = None \<or> \<not> start_ok ps \<Longrightarrow> plan_result (run_micro_plan p t ps s) = Some False"
  by (auto simp: run_micro_plan_def plan_result_def Let_def split: option.splits)

lemma poll_loop_head:
  "(fault_evt (apply_events evs s) \<longrightarrow>
      plan_result (poll_loop p t st ((evs, now) # rest) s) = Some False)
   \<and> (\<not> fault_evt (apply_events evs s) \<and> plan_done_evt (apply_events evs s)
        \<and> stop_flag (apply_events evs s) \<longrightarrow>
      plan_result (poll_loop p t st ((evs, now) # rest) s) = Some False)
   \<and> (\<not> fault_evt (apply_events evs s) \<and> plan_done_evt (apply_events evs s)
        \<and> \<not> stop_flag (apply_events evs s) \<longrightarrow>
      plan_result (poll_loop p t st ((evs, now) # rest) s) = Some True)
   \<and> (\<not> fault_evt (apply_events evs s) \<and> \<not> plan_done_evt (apply_events evs s)
        \<and> now - st > t \<longrightarrow>
      plan_result (poll_loop p t st ((evs, now) # rest) s) = Some False
      \<and> backend_calls (plan_state (poll_loop p t st ((evs, now) # rest) s))
          = backend_calls (apply_events evs s) @ [BackendStop])
   \<and> (stop_flag (apply_events evs s) \<longrightarrow>
      plan_result (poll_loop p t st ((evs, now) # rest) s) = Some False)
   \<and> (\<not> fault_evt (apply_events evs s) \<and> \<not> plan_done_evt (apply_events evs s)
        \<and> \<not> now - st > t \<and> \<not> stop_flag (apply_events evs s) \<longrightarrow>
      poll_loop p t st ((evs, now) # rest) s
        = poll_loop p t st rest (sleep 0.05 (apply_events evs s)))"
  by (simp add: poll_once_def plan_result_def plan_state_def log_def)

lemma run_micro_plan_success_state:
  "plan_result (run_micro_plan p t ps s) = Some True \<Longrightarrow>
   plan_done_evt (plan_state (run_micro_plan p t ps s))
   \<and> \<not> fault_evt (plan_state (run_micro_plan p t ps s))
   \<and> \<not> stop_flag (plan_state (run_micro_plan p t ps s))"
  by (auto simp: run_micro_plan_def plan_result_def plan_state_def Let_def
      split: option.splits if_splits outcome.splits dest: poll_loop_success_state)

text \<open>
  Claim C3. Let \<open>_run_micro_plan\<close> have started the plan, for any plan name and
  timeout. At the first pass of its polling loop the flags, as the calls from other
  threads have left them, are resolved in this order: a fault reported by the adapter
  makes the runner return \<open>False\<close> at once, also when completion has arrived;
  completion with a stop request returns \<open>False\<close>; completion without a stop request
  returns \<open>True\<close>; an elapsed time above the timeout calls \<open>backend.stop()\<close> and
  returns \<open>False\<close>; a stop request seen at the pass returns \<open>False\<close> at that pass;
  otherwise the runner sleeps 50 ms and goes on with the polling loop on the rest of
  the script. The polling loop resolves every later pass in the same order, from
  whatever state it has reached. A runner that could not start the plan returns
  \<open>False\<close>, and the runner returns \<open>True\<close> only from a pass that saw completion with
  neither a fault nor a stop request.
\<close>

theorem poll_priority_order:
  "(speed ps = Some sp \<and> start_ok ps \<and> polls ps = (evs, now) # rest \<longrightarrow>
      (fault_evt (apply_events evs (after_start p sp s)) \<longrightarrow> plan_result (run_micro_plan p t ps s) = Some False)
      \<and> (\<not> fault_evt (apply_events evs (after_start p sp s)) \<and> plan_done_evt (apply_events evs (after_start p sp s)) \<and> stop_flag (apply_events evs (after_start p sp s)) \<longrightarrow>
            plan_result (run_micro_plan p t ps s) = Some False)
      \<and> (\<not> fault_evt (apply_events evs (after_start p sp s)) \<and> plan_done_evt (apply_events evs (after_start p sp s)) \<and> \<not> stop_flag (apply_events evs (after_start p sp s)) \<longrightarrow>
            plan_result (run_micro_plan p t ps s) = Some True)
      \<and> (\<not> fault_evt (apply_events evs (after_start p sp s)) \<and> \<not> plan_done_evt (apply_events evs (after_start p sp s)) \<and> now - t0 ps > t \<longrightarrow>
            plan_result (run_micro_plan p t ps s) = Some False
            \<and> backend_calls (plan_state (run_micro_plan p t ps s)) = backend_calls (apply_events evs (after_start p sp s)) @ [BackendStop])
      \<and> (stop_flag (apply_events evs (after_start p sp s)) \<longrightarrow> plan_result (run_micro_plan p t ps s) = Some False)
      \<and> (\<not> fault_evt (apply_events evs (after_start p sp s)) \<and> \<not> plan_done_evt (apply_events evs (after_start p sp s)) \<and> \<not> now - t0 ps > t
            \<and> \<not> stop_flag (apply_events evs (after_start p sp s)) \<longrightarrow>
            run_micro_plan p t ps s = poll_loop p t (t0 ps) rest (sleep 0.05 (apply_events evs (after_start p sp s)))))
   \<and> (speed ps = None \<or> \<not> start_ok ps \<longrightarrow> plan_result (run_micro_plan p t ps s) = Some False)
   \<and> (plan_result (run_micro_plan p t ps s) = Some True \<longrightarrow>
        plan_done_evt (plan_state (run_micro_plan p t ps s)) \<and> \<not> fault_evt (plan_state (run_micro_plan p t ps s))
        \<and> \<not> stop_flag (plan_state (run_micro_plan p t ps s)))
   \<and> (fault_evt (apply_events evs' s') \<longrightarrow>
      plan_result (poll_loop p t st ((evs', now') # rest') s') = Some False)
   \<and> (\<not> fault_evt (apply_events evs' s') \<and> plan_done_evt (apply_events evs' s')
        \<and> stop_flag (apply_events evs' s') \<longrightarrow>
      plan_result (poll_loop p t st ((evs', now') # rest') s') = Some False)
   \<and> (\<not> fault_evt (apply_events evs' s') \<and> plan_done_evt (apply_events evs' s')
        \<and> \<not> stop_flag (apply_events evs' s') \<longrightarrow>
      plan_result (poll_loop p t st ((evs', now') # rest') s') = Some True)
   \<and> (\<not> fault_evt (apply_events evs' s') \<and> \<not> plan_done_evt (apply_events evs' s')
        \<and> now' - st > t \<longrightarrow>
      plan_result (poll_loop p t st ((evs', now') # rest') s') = Some False
      \<and> backend_calls (plan_state (poll_loop p t st ((evs', now') # rest') s'))
          = backend_calls (apply_events evs' s') @ [BackendStop])
   \<and> (stop_flag (apply_events evs' s') \<longrightarrow>
      plan_result (poll_loop p t st ((evs', now') # rest') s') = Some False)
   \<and> (\<not> fault_evt (apply_events evs' s') \<and> \<not> plan_done_evt (apply_events evs' s')
        \<and> \<not> now' - st > t \<and> \<not> stop_flag (apply_events evs' s') \<longrightarrow>
      poll_loop p t st ((evs', now') # rest') s'
        = poll_loop p t st rest' (sleep 0.05 (apply_events evs' s')))"
proof -
  have first: "(fault_evt (apply_events evs (after_start p sp s)) \<longrightarrow> plan_result (run_micro_plan p t ps s) = Some False)
      \<and> (\<not> fault_evt (apply_events evs (after_start p sp s)) \<and> plan_done_evt (apply_events evs (after_start p sp s)) \<and> stop_flag (apply_events evs (after_start p sp s)) \<longrightarrow>
            plan_result (run_micro_plan p t ps s) = Some False)
      \<and> (\<not> fault_evt (apply_events evs (after_start p sp s)) \<and> plan_done_evt (apply_events evs (after_start p sp s)) \<and> \<not> stop_flag (apply_events evs (after_start p sp s)) \<longrightarrow>
            plan_result (run_micro_plan p t ps s) = Some True)
      \<and> (\<not> fault_evt (apply_events evs (after_start p sp s)) \<and> \<not> plan_done_evt (apply_events evs (after_start p sp s)) \<and> now - t0 ps > t \<longrightarrow>
            plan_result (run_micro_plan p t ps s) = Some False
            \<and> backend_calls (plan_state (run_micro_plan p t ps s)) = backend_calls (apply_events evs (after_start p sp s)) @ [BackendStop])
      \<and> (stop_flag (apply_events evs (after_start p sp s)) \<longrightarrow> plan_result (run_micro_plan p t ps s) = Some False)
      \<and> (\<not> fault_evt (apply_events evs (after_start p sp s)) \<and> \<not> plan_done_evt (apply_events evs (after_start p sp s)) \<and> \<not> now - t0 ps > t
            \<and> \<not> stop_flag (apply_events evs (after_start p sp s)) \<longrightarrow>
            run_micro_plan p t ps s = poll_loop p t (t0 ps) rest (sleep 0.05 (apply_events evs (after_start p sp s))))"
    if h: "speed ps = Some sp" "start_ok ps" "polls ps = (evs, now) # rest"
    using poll_loop_head[of evs "after_start p sp s" p t "t0 ps" now rest]
    unfolding run_micro_plan_started[OF h(1,2)] h(3) .
  show ?thesis
    using first run_micro_plan_not_started[of ps p t s] run_micro_plan_success_state[of p t ps s]
      poll_loop_head[of evs' s' p t st now' rest']
    by blast
qed

theorem poll_priority_order_witness:
  "(fault_evt (apply_events [EvBackend ''STOPPED'' False, EvBackend ''FAULT'' True] (after_start ''OpenMachine'' 100 (init default_config)))
    \<and> plan_done_evt (apply_events [EvBackend ''STOPPED'' False, EvBackend ''FAULT'' True] (after_start ''OpenMachine'' 100 (init default_config)))
    \<and> plan_result (run_micro_plan ''OpenMachine'' 120 (\<lparr> speed = Some 100, start_ok = True, t0 = 0, polls = [([EvBackend ''STOPPED'' False, EvBackend ''FAULT'' True], 1)] \<rparr>) (init default_config)) = Some False)
   \<and> (\<not> fault_evt (apply_events [EvStop, EvBackend ''FAULT'' False] (after_start ''OpenMachine'' 100 (init default_config)))
    \<and> plan_done_evt (apply_events [EvStop, EvBackend ''FAULT'' False] (after_start ''OpenMachine'' 100 (init default_config)))
    \<and> stop_flag (apply_events [EvStop, EvBackend ''FAULT'' False] (after_start ''OpenMachine'' 100 (init default_config)))
    \<and> plan_result (run_micro_plan ''OpenMachine'' 120 (\<lparr> speed = Some 100, start_ok = True, t0 = 0, polls = [([EvStop, EvBackend ''FAULT'' False], 1)] \<rparr>) (init default_config)) = Some False)
   \<and> (\<not> fault_evt (apply_events [EvBackend ''STOPPED'' False] (after_start ''OpenMachine'' 100 (init default_config)))
    \<and> plan_done_evt (apply_events [EvBackend ''STOPPED'' False] (after_start ''OpenMachine'' 100 (init default_config)))
    \<and> \<not> stop_flag (apply_events [EvBackend ''STOPPED'' False] (after_start ''OpenMachine'' 100 (init default_config)))
    \<and> plan_result (run_micro_plan ''OpenMachine'' 120 (\<lparr> speed = Some 100, start_ok = True, t0 = 0, polls = [([EvBackend ''STOPPED'' False], 1)] \<rparr>) (init default_config)) = Some True)
   \<and> (\<not> fault_evt (apply_events [] (after_start ''OpenMachine'' 100 (init default_config)))
    \<and> \<not> plan_done_evt (apply_events [] (after_start ''OpenMachine'' 100 (init default_config)))
    \<and> (121::real) - 0 > 120
    \<and> plan_result (run_micro_plan ''OpenMachine'' 120 (\<lparr> speed = Some 100, start_ok = True, t0 = 0, polls = [([], 121)] \<rparr>) (init default_config)) = Some False
    \<and> backend_calls (plan_state (run_micro_plan ''OpenMachine'' 120 (\<lparr> speed = Some 100, start_ok = True, t0 = 0, polls = [([], 121)] \<rparr>) (init default_config))) = [StartPlan ''OpenMachine'' 100, BackendStop])
   \<and> (\<not> (1::real) - 0 > 120
    \<and> \<not> stop_flag (apply_events [] (after_start ''OpenMachine'' 100 (init default_config)))
    \<and> run_micro_plan ''OpenMachine'' 120 (\<lparr> speed = Some 100, start_ok = True, t0 = 0, polls = [([], 1)] \<rparr>) (init default_config)
         = Polling (sleep 0.05 (after_start ''OpenMachine'' 100 (init default_config))))
   \<and> (plan_result (run_micro_plan ''OpenMachine'' 120 (\<lparr> speed = None, start_ok = True, t0 = 0, polls = [] \<rparr>) (init default_config)) = Some False)"
proof -
  note defs = init_def on_backend_event_def stop_def stop_listener_def log_def sleep_def Let_def
    after_start_def run_micro_plan_def poll_once_def plan_result_def plan_state_def
  have w1: "fault_evt (apply_events [EvBackend ''STOPPED'' False, EvBackend ''FAULT'' True] (after_start ''OpenMachine'' 100 (init default_config)))
    \<and> plan_done_evt (apply_events [EvBackend ''STOPPED'' False, EvBackend ''FAULT'' True] (after_start ''OpenMachine'' 100 (init default_config)))
    \<and> plan_result (run_micro_plan ''OpenMachine'' 120 (\<lparr> speed = Some 100, start_ok = True, t0 = 0, polls = [([EvBackend ''STOPPED'' False, EvBackend ''FAULT'' True], 1)] \<rparr>) (init default_config)) = Some False"
    using poll_priority_order[where ps="\<lparr> speed = Some 100, start_ok = True, t0 = 0, polls = [([EvBackend ''STOPPED'' False, EvBackend ''FAULT'' True], 1)] \<rparr>" and sp=100 and evs="[EvBackend ''STOPPED'' False, EvBackend ''FAULT'' True]" and now=1 and rest="[]"
        and p="''OpenMachine''" and t=120 and s="init default_config"]
    by (simp add: defs)
  have w2: "\<not> fault_evt (apply_events [EvStop, EvBackend ''FAULT'' False] (after_start ''OpenMachine'' 100 (init default_config)))
    \<and> plan_done_evt (apply_events [EvStop, EvBackend ''FAULT'' False] (after_start ''OpenMachine'' 100 (init default_config)))
    \<and> stop_flag (apply_events [EvStop, EvBackend ''FAULT'' False] (after_start ''OpenMachine'' 100 (init default_config)))
    \<and> plan_result (run_micro_plan ''OpenMachine'' 120 (\<lparr> speed = Some 100, start_ok = True, t0 = 0, polls = [([EvStop, EvBackend ''FAULT'' False], 1)] \<rparr>) (init default_config)) = Some False"
    using poll_priority_order[where ps="\<lparr> speed = Some 100, start_ok = True, t0 = 0, polls = [([EvStop, EvBackend ''FAULT'' False], 1)] \<rparr>" and sp=100 and evs="[EvStop, EvBackend ''FAULT'' False]" and now=1 and rest="[]"
        and p="''OpenMachine''" and t=120 and s="init default_config"]
    by (simp add: defs)
  have w3: "\<not> fault_evt (apply_events [EvBackend ''STOPPED'' False] (after_start ''OpenMachine'' 100 (init default_config)))
    \<and> plan_done_evt (apply_events [EvBackend ''STOPPED'' False] (after_start ''OpenMachine'' 100 (init default_config)))
    \<and> \<not> stop_flag (apply_events [EvBackend ''STOPPED'' False] (after_start ''OpenMachine'' 100 (init default_config)))
    \<and> plan_result (run_micro_plan ''OpenMachine'' 120 (\<lparr> speed = Some 100, start_ok = True, t0 = 0, polls = [([EvBackend ''STOPPED'' False], 1)] \<rparr>) (init default_config)) = Some True"
    using poll_priority_order[where ps="\<lparr> speed = Some 100, start_ok = True, t0 = 0, polls = [([EvBackend ''STOPPED'' False], 1)] \<rparr>" and sp=100 and evs="[EvBackend ''STOPPED'' False]" and now=1 and rest="[]"
        and p="''OpenMachine''" and t=120 and s="init default_config"]
    by (simp add: defs)
  have w4: "\<not> fault_evt (apply_events [] (after_start ''OpenMachine'' 100 (init default_config)))
    \<and> \<not> plan_done_evt (apply_events [] (after_start ''OpenMachine'' 100 (init default_config)))
    \<and> (121::real) - 0 > 120
    \<and> plan_result (run_micro_plan ''OpenMachine'' 120 (\<lparr> speed = Some 100, start_ok = True, t0 = 0, polls = [([], 121)] \<rparr>) (init default_config)) = Some False
    \<and> backend_calls (plan_state (run_micro_plan ''OpenMachine'' 120 (\<lparr> speed = Some 100, start_ok = True, t0 = 0, polls = [([], 121)] \<rparr>) (init default_config))) = [StartPlan ''OpenMachine'' 100, BackendStop]"
    using poll_priority_order[where ps="\<lparr> speed = Some 100, start_ok = True, t0 = 0, polls = [([], 121)] \<rparr>" and sp=100 and evs="[]" and now=121 and rest="[]"
        and p="''OpenMachine''" and t=120 and s="init default_config"]
    by (simp add: defs)
  have w5: "\<not> (1::real) - 0 > 120
    \<and> \<not> stop_flag (apply_events [] (after_start ''OpenMachine'' 100 (init default_config)))
    \<and> run_micro_plan ''OpenMachine'' 120 (\<lparr> speed = Some 100, start_ok = True, t0 = 0, polls = [([], 1)] \<rparr>) (init default_config)
         = Polling (sleep 0.05 (after_start ''OpenMachine'' 100 (init default_config)))"
    using poll_priority_order[where ps="\<lparr> speed = Some 100, start_ok = True, t0 = 0, polls = [([], 1)] \<rparr>" and sp=100 and evs="[]" and now=1 and rest="[]"
        and p="''OpenMachine''" and t=120 and s="init default_config"]
    by (simp add: defs)
  have w6: "plan_result (run_micro_plan ''OpenMachine'' 120 (\<lparr> speed = None, start_ok = True, t0 = 0, polls = [] \<rparr>) (init default_config)) = Some False"
    using poll_priority_order[where ps="\<lparr> speed = None, start_ok = True, t0 = 0, polls = [] \<rparr>" and sp=100 and evs="[]" and now=1 and rest="[]"
        and p="''OpenMachine''" and t=120 and s="init default_config"]
    by (simp add: defs)
  show ?thesis
    using w1 w2 w3 w4 w5 w6 by blast
qed

section \<open>Verdicts for a station that is not awaiting one\<close>

lemma deliver_all_station1:
  "\<not> awaiting_result1 s \<Longrightarrow>
   tester_result1 (deliver_all ds s) = tester_result1 s
   \<and> tester_loaded1 (deliver_all ds s) = tester_loaded1 s
   \<and> tester_operating1 (deliver_all ds s) = tester_operating1 s
   \<and> tester_commready1 (deliver_all ds s) = tester_commready1 s
   \<and> awaiting_result1 (deliver_all ds s) = awaiting_result1 s"
proof (induction ds arbitrary: s)
  case Nil
  show ?case by simp
next
  case (Cons d ds)
  obtain m v where d: "d = (m, v)" by (cases d)
  let ?s1 = "external_test_complete m v s"
  have step: "\<not> awaiting_result1 ?s1 \<and> tester_result1 ?s1 = tester_result1 s
      \<and> tester_loaded1 ?s1 = tester_loaded1 s \<and> tester_operating1 ?s1 = tester_operating1 s
      \<and> tester_commready1 ?s1 = tester_commready1 s"
    using Cons.prems by (simp add: external_test_complete_def log_def Let_def)
  then show ?case using Cons.IH[of ?s1] Cons.prems d by simp
qed

lemma deliver_all_station2:
  "\<not> awaiting_result2 s \<Longrightarrow>
   tester_result2 (deliver_all ds s) = tester_result2 s
   \<and> tester_loaded2 (deliver_all ds s) = tester_loaded2 s
   \<and> tester_operating2 (deliver_all ds s) = tester_operating2 s
   \<and> tester_commready2 (deliver_all ds s) = tester_commready2 s
   \<and> awaiting_result2 (deliver_all ds s) = awaiting_result2 s"
proof (induction ds arbitrary: s)
  case Nil
  show ?case by simp
next
  case (Cons d ds)
  obtain m v where d: "d = (m, v)" by (cases d)
  let ?s1 = "external_test_complete m v s"
  have step: "\<not> awaiting_result2 ?s1 \<and> tester_result2 ?s1 = tester_result2 s
      \<and> tester_loaded2 ?s1 = tester_loaded2 s \<and> tester_operating2 ?s1 = tester_operating2 s
      \<and> tester_commready2 ?s1 = tester_commready2 s"
    using Cons.prems by (simp add: external_test_complete_def log_def Let_def)
  then show ?case using Cons.IH[of ?s1] Cons.prems d by simp
qed

text \<open>
  Claim C5. A verdict delivered to a station whose \<open>awaiting_result\<close> flag is false
  only appends the line "Ignored result (not awaiting)" to the log. Through any sequence
  of deliveries, to either station, a station that was not awaiting a result keeps its
  verdict, its loaded, testing and awaiting flags, and the value of its unload guard.
\<close>

theorem stale_verdict_discarded:
  "(\<not> awaiting_result1 s \<longrightarrow>
      external_test_complete 1 v s = s\<lparr>log_out := log_out s @ [LogIgnored 1]\<rparr>
      \<and> tester_result1 (deliver_all ds s) = tester_result1 s
      \<and> tester_loaded1 (deliver_all ds s) = tester_loaded1 s
      \<and> tester_operating1 (deliver_all ds s) = tester_operating1 s
      \<and> awaiting_result1 (deliver_all ds s) = awaiting_result1 s
      \<and> m1_unload_guard p (deliver_all ds s) = m1_unload_guard p s)
   \<and> (\<not> awaiting_result2 s \<longrightarrow>
      external_test_complete 2 v s = s\<lparr>log_out := log_out s @ [LogIgnored 2]\<rparr>
      \<and> tester_result2 (deliver_all ds s) = tester_result2 s
      \<and> tester_loaded2 (deliver_all ds s) = tester_loaded2 s
      \<and> tester_operating2 (deliver_all ds s) = tester_operating2 s
      \<and> awaiting_result2 (deliver_all ds s) = awaiting_result2 s
      \<and> m2_unload_guard p (deliver_all ds s) = m2_unload_guard p s)"
proof -
  have a: "\<not> awaiting_result1 s \<Longrightarrow>
      external_test_complete 1 v s = s\<lparr>log_out := log_out s @ [LogIgnored 1]\<rparr>"
    by (simp add: external_test_complete_def log_def)
  have b: "\<not> awaiting_result2 s \<Longrightarrow>
      external_test_complete 2 v s = s\<lparr>log_out := log_out s @ [LogIgnored 2]\<rparr>"
    by (simp add: external_test_complete_def log_def)
  show ?thesis
    using a b deliver_all_station1[of s ds] deliver_all_station2[of s ds]
    by (simp add: m1_unload_guard_def m2_unload_guard_def)
qed

theorem stale_verdict_discarded_witness:
  "\<not> awaiting_result1 (init default_config) \<and> \<not> awaiting_result2 (init default_config)
   \<and> external_test_complete 1 (Some ''PASS'') (init default_config) =
       (init default_config)\<lparr>log_out := log_out (init default_config) @ [LogIgnored 1]\<rparr>
   \<and> tester_result1 (deliver_all [(1, Some ''PASS''), (2, Some ''FAIL''), (1, Some ''FAIL'')]
        (init default_config)) = None
   \<and> tester_result2 (deliver_all [(1, Some ''PASS''), (2, Some ''FAIL''), (1, Some ''FAIL'')]
        (init default_config)) = None
   \<and> \<not> m1_unload_guard False (deliver_all [(1, Some ''PASS''), (2, Some ''FAIL''), (1, Some ''FAIL'')]
        (init default_config))"
proof -
  have h: "\<not> awaiting_result1 (init default_config)" "\<not> awaiting_result2 (init default_config)"
    by (simp_all add: init_def)
  have r: "tester_result1 (init default_config) = None" "tester_result2 (init default_config) = None"
    "\<not> m1_unload_guard False (init default_config)"
    by (simp_all add: init_def m1_unload_guard_def)
  show ?thesis
    using h r
      stale_verdict_discarded[of "init default_config" "Some ''PASS''"
        "[(1, Some ''PASS''), (2, Some ''FAIL''), (1, Some ''FAIL'')]" False]
    by (simp del: deliver_all.simps)
qed

section \<open>Recovery\<close>

text \<open>
  Claim C8. \<open>_recover\<close> returns \<open>False\<close> from every state; it appends one line to
  the log and changes nothing else: no call on the backend, no change to the fault
  flag or the fault event.
\<close>

theorem recover_never_acts:
  "fst (recover s) = False
   \<and> snd (recover s) = s\<lparr>log_out := log_out s @ [LogRecoveryBlocked]\<rparr>
   \<and> backend_calls (snd (recover s)) = backend_calls s
   \<and> fault (snd (recover s)) = fault s
   \<and> fault_evt (snd (recover s)) = fault_evt s"
  by (simp add: recover_def log_def)

section \<open>Starting while the worker is alive\<close>

text \<open>
  Claim C10. When \<open>start_seq_worker\<close> is called with a number of slots while the worker
  thread is alive, it starts no thread and leaves the listeners as they are, but it has
  already stored the number in \<open>cfg.total_slots1\<close> and \<open>cfg.total_slots2\<close>; the only
  other effect is the log line "Sequencer already running".
\<close>

theorem start_while_running_overwrites_capacity:
  "th s = Some True \<Longrightarrow>
   start_seq_worker (Some n) s =
     s\<lparr>cfg := (cfg s)\<lparr>total_slots1 := n, total_slots2 := n\<rparr>,
       log_out := log_out s @ [LogAlreadyRunning]\<rparr>
   \<and> spawned (start_seq_worker (Some n) s) = spawned s
   \<and> th (start_seq_worker (Some n) s) = th s
   \<and> serial1_th (start_seq_worker (Some n) s) = serial1_th s
   \<and> serial2_th (start_seq_worker (Some n) s) = serial2_th s
   \<and> total_slots1 (cfg (start_seq_worker (Some n) s)) = n
   \<and> total_slots2 (cfg (start_seq_worker (Some n) s)) = n"
  by (simp add: start_seq_worker_def log_def)

theorem start_while_running_witness:
  "th started_object = Some True
   \<and> total_slots1 (cfg started_object) = 1
   \<and> total_slots1 (cfg (start_seq_worker (Some 5) started_object)) = 5
   \<and> total_slots2 (cfg (start_seq_worker (Some 5) started_object)) = 5
   \<and> spawned (start_seq_worker (Some 5) started_object) = spawned started_object"
proof -
  have h: "th started_object = Some True"
    by (simp add: started_object_def worker_prologue_def test_comms_def ping_serial_def
        start_seq_worker_def start_listener_def init_def log_def Let_def)
  have c: "total_slots1 (cfg started_object) = 1"
    by (simp add: started_object_def worker_prologue_def test_comms_def ping_serial_def
        start_seq_worker_def start_listener_def init_def default_config_def log_def Let_def)
  show ?thesis
    using h c start_while_running_overwrites_capacity[OF h, of 5] by simp
qed

section \<open>One transition for each pass of the loop\<close>

lemma guards_progressed [simp]:
  "\<not> m1_unload_guard True s" "\<not> m1_load_guard True s"
  "\<not> m2_unload_guard True s" "\<not> m2_load_guard True s"
  by (simp_all add: m1_unload_guard_def m1_load_guard_def m2_unload_guard_def m2_load_guard_def)

lemma m1_unload_skip: "\<not> m1_unload_guard p s \<Longrightarrow> m1_unload (p, ps, s) = Next (p, ps, s)"
  by (simp add: m1_unload_def)
lemma m1_load_skip: "\<not> m1_load_guard p s \<Longrightarrow> m1_load (p, ps, s) = Next (p, ps, s)"
  by (simp add: m1_load_def)
lemma m2_unload_skip: "\<not> m2_unload_guard p s \<Longrightarrow> m2_unload (p, ps, s) = Next (p, ps, s)"
  by (simp add: m2_unload_def)
lemma m2_load_skip: "\<not> m2_load_guard p s \<Longrightarrow> m2_load (p, ps, s) = Next (p, ps, s)"
  by (simp add: m2_load_def)

lemma run_next_attempts_R:
  "run_next p t ps s = Returned (ok, ps', s') \<Longrightarrow> attempts s' = attempts s"
  by (drule run_next_Returned) (simp add: env_frame_def)

lemma run_next_attempts_P:
  "run_next p t ps s = Polling s' \<Longrightarrow> attempts s' = attempts s"
  by (drule run_next_Polling) (simp add: env_frame_def)

lemma m1_place_attempted: "block_attempted (attempts s) (m1_place plan ps s)"
  by (auto simp: m1_place_def block_attempted_def split: outcome.splits
      dest: run_next_attempts_R run_next_attempts_P)

lemma m2_place_attempted: "block_attempted (attempts s) (m2_place plan ps s)"
  by (auto simp: m2_place_def block_attempted_def split: outcome.splits
      dest: run_next_attempts_R run_next_attempts_P)

lemma m1_unload_attempted:
  assumes "m1_unload_guard False s"
  shows "block_attempted (attempts s @ [M1_UNLOAD]) (m1_unload (False, ps, s))"
proof -
  let ?s0 = "s\<lparr>attempts := attempts s @ [M1_UNLOAD]\<rparr>"
  let ?r = "run_next (plan_open_machine1 (cfg s)) (plan_timeout_s (cfg s)) ps ?s0"
  show ?thesis
  proof (cases ?r)
    case (Polling s1)
    then show ?thesis
      using assms run_next_attempts_P[OF Polling]
      by (simp add: m1_unload_def block_attempted_def)
  next
    case (Returned x)
    obtain ok ps1 s1 where x: "x = (ok, ps1, s1)" by (cases x)
    have a: "attempts s1 = attempts s @ [M1_UNLOAD]"
      using run_next_attempts_R[OF Returned[unfolded x]] by simp
    show ?thesis
      using assms Returned x a m1_place_attempted[of s1 _ ps1]
      by (auto simp: m1_unload_def block_attempted_def log_def Let_def split: option.splits)
  qed
qed


lemma m2_unload_attempted:
  assumes "m2_unload_guard False s"
  shows "block_attempted (attempts s @ [M2_UNLOAD]) (m2_unload (False, ps, s))"
proof -
  let ?s0 = "s\<lparr>attempts := attempts s @ [M2_UNLOAD]\<rparr>"
  let ?r = "run_next (plan_open_machine2 (cfg s)) (plan_timeout_s (cfg s)) ps ?s0"
  show ?thesis
  proof (cases ?r)
    case (Polling s1)
    then show ?thesis
      using assms run_next_attempts_P[OF Polling]
      by (simp add: m2_unload_def block_attempted_def)
  next
    case (Returned x)
    obtain ok ps1 s1 where x: "x = (ok, ps1, s1)" by (cases x)
    have a: "attempts s1 = attempts s @ [M2_UNLOAD]"
      using run_next_attempts_R[OF Returned[unfolded x]] by simp
    show ?thesis
      using assms Returned x a m2_place_attempted[of s1 _ ps1]
      by (auto simp: m2_unload_def block_attempted_def log_def Let_def split: option.splits)
  qed
qed

lemma m1_load_attempted:
  assumes "m1_load_guard False s"
  shows "block_attempted (attempts s @ [M1_LOAD]) (m1_load (False, ps, s))"
proof -
  let ?s0 = "s\<lparr>attempts := attempts s @ [M1_LOAD]\<rparr>"
  let ?r = "run_next (format_slot (plan_pick_fmt1 (cfg s)) (current_slot1 s))
              (plan_timeout_s (cfg s)) ps ?s0"
  show ?thesis
  proof (cases ?r)
    case (Polling s1)
    then show ?thesis
      using assms run_next_attempts_P[OF Polling]
      by (simp add: m1_load_def block_attempted_def)
  next
    case (Returned x)
    obtain ok ps1 s1 where x: "x = (ok, ps1, s1)" by (cases x)
    have a: "attempts s1 = attempts s @ [M1_LOAD]"
      using run_next_attempts_R[OF Returned[unfolded x]] by simp
    show ?thesis
      using assms Returned x a
      by (auto simp: m1_load_def block_attempted_def split: outcome.splits
          dest: run_next_attempts_R run_next_attempts_P)
  qed
qed

lemma m2_load_attempted:
  assumes "m2_load_guard False s"
  shows "block_attempted (attempts s @ [M2_LOAD]) (m2_load (False, ps, s))"
proof -
  let ?s0 = "s\<lparr>attempts := attempts s @ [M2_LOAD]\<rparr>"
  let ?r = "run_next (format_slot (plan_pick_fmt2 (cfg s)) (current_slot2 s))
              (plan_timeout_s (cfg s)) ps ?s0"
  show ?thesis
  proof (cases ?r)
    case (Polling s1)
    then show ?thesis
      using assms run_next_attempts_P[OF Polling]
      by (simp add: m2_load_def block_attempted_def)
  next
    case (Returned x)
    obtain ok ps1 s1 where x: "x = (ok, ps1, s1)" by (cases x)
    have a: "attempts s1 = attempts s @ [M2_LOAD]"
      using run_next_attempts_R[OF Returned[unfolded x]] by simp
    show ?thesis
      using assms Returned x a
      by (auto simp: m2_load_def block_attempted_def split: outcome.splits
          dest: run_next_attempts_R run_next_attempts_P)
  qed
qed

text \<open>Once a block has been entered, the blocks after it are passed over.\<close>

lemma attempted_then_m1_load: "block_attempted a r \<Longrightarrow> then_do r m1_load = r"
  by (cases r) (auto simp: block_attempted_def then_do_def m1_load_skip)

lemma attempted_then_m2_unload: "block_attempted a r \<Longrightarrow> then_do r m2_unload = r"
  by (cases r) (auto simp: block_attempted_def then_do_def m2_unload_skip)

lemma attempted_then_m2_load: "block_attempted a r \<Longrightarrow> then_do r m2_load = r"
  by (cases r) (auto simp: block_attempted_def then_do_def m2_load_skip)

lemma attempted_then_finish:
  "block_attempted a r \<Longrightarrow> attempts (flow_state (then_do r finish)) = a"
  by (cases r)
     (auto simp: block_attempted_def then_do_def finish_def flow_state_def log_def sleep_def)

lemma then_do_Next: "then_do (Next c) f = f c"
  by (simp add: then_do_def)

lemma loop_body_attempts:
  "attempts (flow_state (loop_body ts s)) =
     attempts s @ (case first_eligible (absorb s) of None \<Rightarrow> [] | Some t \<Rightarrow> [t])"
proof -
  let ?s1 = "absorb s"
  have a1: "attempts ?s1 = attempts s"
    using env_frame_absorb[of s] by (simp add: env_frame_def)
  consider (u1) "m1_unload_guard False ?s1"
    | (l1) "\<not> m1_unload_guard False ?s1" "m1_load_guard False ?s1"
    | (u2) "\<not> m1_unload_guard False ?s1" "\<not> m1_load_guard False ?s1" "m2_unload_guard False ?s1"
    | (l2) "\<not> m1_unload_guard False ?s1" "\<not> m1_load_guard False ?s1"
           "\<not> m2_unload_guard False ?s1" "m2_load_guard False ?s1"
    | (none) "\<not> m1_unload_guard False ?s1" "\<not> m1_load_guard False ?s1"
           "\<not> m2_unload_guard False ?s1" "\<not> m2_load_guard False ?s1"
    by blast
  then show ?thesis
  proof cases
    case u1
    note b = m1_unload_attempted[OF u1, of "plans ts"]
    show ?thesis
      using u1 a1 attempted_then_finish[OF b]
      by (simp add: loop_body_def first_eligible_def attempted_then_m1_load[OF b]
          attempted_then_m2_unload[OF b] attempted_then_m2_load[OF b])
  next
    case l1
    note b = m1_load_attempted[OF l1(2), of "plans ts"]
    show ?thesis
      using l1 a1 attempted_then_finish[OF b]
      by (simp add: loop_body_def first_eligible_def m1_unload_skip then_do_Next
          attempted_then_m2_unload[OF b] attempted_then_m2_load[OF b])
  next
    case u2
    note b = m2_unload_attempted[OF u2(3), of "plans ts"]
    show ?thesis
      using u2 a1 attempted_then_finish[OF b]
      by (simp add: loop_body_def first_eligible_def m1_unload_skip m1_load_skip then_do_Next
          attempted_then_m2_load[OF b])
  next
    case l2
    note b = m2_load_attempted[OF l2(4), of "plans ts"]
    show ?thesis
      using l2 a1 attempted_then_finish[OF b]
      by (simp add: loop_body_def first_eligible_def m1_unload_skip m1_load_skip
          m2_unload_skip then_do_Next)
  next
    case none
    then show ?thesis
      using a1
      by (simp add: loop_body_def first_eligible_def m1_unload_skip m1_load_skip
          m2_unload_skip m2_load_skip then_do_Next finish_def flow_state_def log_def sleep_def)
  qed
qed

lemma loop_body_idle:
  assumes "first_eligible (absorb s) = None"
  shows "loop_body ts s =
     (if m1_done (absorb s) \<and> m2_done (absorb s) then Break (log LogAllDone (absorb s))
      else Next (sleep 0.02 (absorb s)))"
proof -
  have g: "\<not> m1_unload_guard False (absorb s)" "\<not> m1_load_guard False (absorb s)"
    "\<not> m2_unload_guard False (absorb s)" "\<not> m2_load_guard False (absorb s)"
    using assms by (auto simp: first_eligible_def split: if_splits)
  show ?thesis
    using g
    by (simp add: loop_body_def m1_unload_skip m1_load_skip m2_unload_skip m2_load_skip
        then_do_Next finish_def)
qed

lemma wait_attempts: "attempts (outcome_state (wait_if_user_paused pp s)) = attempts s"
  using env_frame_wait[of s pp] by (simp add: env_frame_def)

text \<open>
  Claim C7. In every pass of the worker loop, after the done events have been absorbed,
  the blocks entered are exactly the first one, in the order machine-1 unload, machine-1
  load, machine-2 unload, machine-2 load, whose guard holds in the state after the
  absorption, and none when no guard holds; so a pass, with its pause wait and stop
  test, enters at most one block. When no guard holds, the pass either leaves the loop
  because both machines are done, or sleeps 0.02 s and goes on to the next pass.
\<close>

theorem one_transition_per_tick:
  "attempts (flow_state (loop_body ts s)) =
     attempts s @ (case first_eligible (absorb s) of None \<Rightarrow> [] | Some t \<Rightarrow> [t])
   \<and> (first_eligible (absorb s) = None \<longrightarrow>
        loop_body ts s =
          (if m1_done (absorb s) \<and> m2_done (absorb s) then Break (log LogAllDone (absorb s))
           else Next (sleep 0.02 (absorb s))))
   \<and> (first_eligible (absorb s) = None \<and> is_next (loop_body ts s) \<longrightarrow>
        sleeps (flow_state (loop_body ts s)) = sleeps s @ [0.02])
   \<and> length (attempts (flow_state (iteration ts s))) \<le> length (attempts s) + 1"
proof -
  have sl: "sleeps (sleep 0.02 (absorb s)) = sleeps s @ [0.02]"
    by (simp add: sleep_def absorb_def Let_def)
  have it: "length (attempts (flow_state (iteration ts s))) \<le> length (attempts s) + 1"
  proof (cases "wait_if_user_paused (pause_polls ts) s")
    case (Polling s1)
    then show ?thesis
      using wait_attempts[of "pause_polls ts" s]
      by (simp add: iteration_def flow_state_def outcome_state_def)
  next
    case (Returned s1)
    have a: "attempts s1 = attempts s"
      using wait_attempts[of "pause_polls ts" s] Returned by (simp add: outcome_state_def)
    show ?thesis
    proof (cases "stop_flag s1")
      case True
      then show ?thesis using Returned a by (simp add: iteration_def flow_state_def)
    next
      case False
      then show ?thesis
        using Returned a loop_body_attempts[of ts s1]
        by (simp add: iteration_def split: option.splits)
    qed
  qed
  have idle: "sleeps (flow_state (loop_body ts s)) = sleeps s @ [0.02]"
    if "first_eligible (absorb s) = None" "is_next (loop_body ts s)"
    using loop_body_idle[OF that(1), of ts] that(2) sl
    by (auto simp: is_next_def flow_state_def split: if_splits)
  show ?thesis
    using loop_body_attempts[of ts s] loop_body_idle[of s ts] idle it by blast
qed

theorem one_transition_per_tick_witness:
  "first_eligible (absorb (init default_config)) = None
   \<and> is_next (loop_body quiet_tick (init default_config))
   \<and> attempts (flow_state (loop_body quiet_tick (init default_config))) = []
   \<and> sleeps (flow_state (loop_body quiet_tick (init default_config))) = [0.02]
   \<and> first_eligible (absorb started_object) = Some M1_LOAD
   \<and> attempts (flow_state (loop_body quiet_tick started_object)) = [M1_LOAD]
   \<and> length (attempts (flow_state (iteration quiet_tick started_object))) \<le> 1"
proof -
  note defs = first_eligible_def m1_unload_guard_def m1_load_guard_def m2_unload_guard_def
    m2_load_guard_def m1_done_def m2_done_def absorb_def init_def default_config_def
    started_object_def worker_prologue_def test_comms_def ping_serial_def start_seq_worker_def
    start_listener_def log_def sleep_def Let_def
  have h1: "first_eligible (absorb (init default_config)) = None"
    by (simp add: defs)
  have h2: "first_eligible (absorb started_object) = Some M1_LOAD"
    by (simp add: defs)
  have a0: "attempts (init default_config) = []" "sleeps (init default_config) = []"
    "attempts started_object = []"
    by (simp_all add: defs)
  note t1 = one_transition_per_tick[of quiet_tick "init default_config"]
  have nd: "\<not> (m1_done (absorb (init default_config)) \<and> m2_done (absorb (init default_config)))"
    by (simp add: defs)
  have lb: "loop_body quiet_tick (init default_config) = Next (sleep 0.02 (absorb (init default_config)))"
    using t1 h1 nd by simp
  have n: "is_next (loop_body quiet_tick (init default_config))"
    unfolding lb by (simp add: is_next_def)
  have r1s: "sleeps (flow_state (loop_body quiet_tick (init default_config)))
      = sleeps (init default_config) @ [0.02]"
    using t1 h1 n by blast
  have r1a: "attempts (flow_state (loop_body quiet_tick (init default_config)))
      = attempts (init default_config)
        @ (case first_eligible (absorb (init default_config)) of None \<Rightarrow> [] | Some t \<Rightarrow> [t])"
    using t1 by blast
  have r1: "attempts (flow_state (loop_body quiet_tick (init default_config))) = []"
    "sleeps (flow_state (loop_body quiet_tick (init default_config))) = [0.02]"
    using r1a r1s by (simp_all add: h1 a0)
  note t2 = one_transition_per_tick[of quiet_tick started_object]
  have r2a: "attempts (flow_state (loop_body quiet_tick started_object))
      = attempts started_object
        @ (case first_eligible (absorb started_object) of None \<Rightarrow> [] | Some t \<Rightarrow> [t])"
    using t2 by blast
  have r2b: "length (attempts (flow_state (iteration quiet_tick started_object)))
      \<le> length (attempts started_object) + 1"
    using t2 by blast
  have r2: "attempts (flow_state (loop_body quiet_tick started_object)) = [M1_LOAD]"
    "length (attempts (flow_state (iteration quiet_tick started_object))) \<le> 1"
    using r2a r2b by (simp_all add: h2 a0)
  show ?thesis
    using h1 h2 n r1 r2 by blast
qed

section \<open>A station of capacity zero\<close>

lemma station1_kept_refl: "station1_kept s s"
  by (simp add: station1_kept_def)

lemma station1_kept_trans:
  "station1_kept s s' \<Longrightarrow> station1_kept s' s'' \<Longrightarrow> station1_kept s s''"
  by (simp add: station1_kept_def)

lemma env_frame_station1: "env_frame s s' \<Longrightarrow> station1_kept s s'"
  by (simp add: env_frame_def station1_kept_def m1_attempts_def)

lemma station1_kept_done: "m1_done s \<Longrightarrow> station1_kept s s' \<Longrightarrow> m1_done s'"
  by (auto simp: m1_done_def station1_kept_def)

lemma station2_kept_refl: "station2_kept s s"
  by (simp add: station2_kept_def)

lemma station2_kept_trans:
  "station2_kept s s' \<Longrightarrow> station2_kept s' s'' \<Longrightarrow> station2_kept s s''"
  by (simp add: station2_kept_def)

lemma env_frame_station2: "env_frame s s' \<Longrightarrow> station2_kept s s'"
  by (simp add: env_frame_def station2_kept_def m2_attempts_def)

lemma station2_kept_done: "m2_done s \<Longrightarrow> station2_kept s s' \<Longrightarrow> m2_done s'"
  by (auto simp: m2_done_def station2_kept_def)

lemma run_next_station1_R:
  "run_next p t ps s = Returned (ok, ps', s') \<Longrightarrow> station1_kept s s'"
  by (rule env_frame_station1) (rule run_next_Returned)

lemma run_next_station1_P: "run_next p t ps s = Polling s' \<Longrightarrow> station1_kept s s'"
  by (rule env_frame_station1) (rule run_next_Polling)

lemma run_next_station2_R:
  "run_next p t ps s = Returned (ok, ps', s') \<Longrightarrow> station2_kept s s'"
  by (rule env_frame_station2) (rule run_next_Returned)

lemma run_next_station2_P: "run_next p t ps s = Polling s' \<Longrightarrow> station2_kept s s'"
  by (rule env_frame_station2) (rule run_next_Polling)

lemma m2_place_station1: "station1_kept s (block_state (m2_place plan ps s))"
  by (auto simp: m2_place_def block_state_def split: outcome.splits
      dest!: run_next_station1_R run_next_station1_P)
     (simp_all add: station1_kept_def m1_attempts_def)

lemma m1_place_station2: "station2_kept s (block_state (m1_place plan ps s))"
  by (auto simp: m1_place_def block_state_def split: outcome.splits
      dest!: run_next_station2_R run_next_station2_P)
     (simp_all add: station2_kept_def m2_attempts_def)

lemma station1_kept_attempt:
  "t = M2_UNLOAD \<or> t = M2_LOAD \<Longrightarrow> station1_kept s (s\<lparr>attempts := attempts s @ [t]\<rparr>)"
  by (auto simp: station1_kept_def m1_attempts_def)

lemma station2_kept_attempt:
  "t = M1_UNLOAD \<or> t = M1_LOAD \<Longrightarrow> station2_kept s (s\<lparr>attempts := attempts s @ [t]\<rparr>)"
  by (auto simp: station2_kept_def m2_attempts_def)

lemma m2_unload_station1: "station1_kept s (block_state (m2_unload (p, ps, s)))"
proof (cases "m2_unload_guard p s")
  case False
  then show ?thesis by (simp add: m2_unload_skip block_state_def station1_kept_refl)
next
  case True
  let ?s0 = "s\<lparr>attempts := attempts s @ [M2_UNLOAD]\<rparr>"
  have k0: "station1_kept s ?s0" by (simp add: station1_kept_attempt)
  show ?thesis
  proof (cases "run_next (plan_open_machine2 (cfg s)) (plan_timeout_s (cfg s)) ps ?s0")
    case (Polling s1)
    then show ?thesis
      using True station1_kept_trans[OF k0 run_next_station1_P[OF Polling]]
      by (simp add: m2_unload_def block_state_def)
  next
    case (Returned x)
    obtain ok ps1 s1 where x: "x = (ok, ps1, s1)" by (cases x)
    have k1: "station1_kept s s1"
      using station1_kept_trans[OF k0 run_next_station1_R[OF Returned[unfolded x]]] .
    have k2: "station1_kept s (block_state (m2_place plan ps1 s1))" for plan
      using station1_kept_trans[OF k1 m2_place_station1] .
    have k3: "station1_kept s (log m s1)" for m
      using station1_kept_trans[OF k1 env_frame_station1[OF env_frame_log]] .
    show ?thesis
      using True Returned x k1 k2 k3
      by (auto simp: m2_unload_def Let_def split: option.splits)
         (simp_all add: block_state_def)
  qed
qed

lemma m1_unload_station2: "station2_kept s (block_state (m1_unload (p, ps, s)))"
proof (cases "m1_unload_guard p s")
  case False
  then show ?thesis by (simp add: m1_unload_skip block_state_def station2_kept_refl)
next
  case True
  let ?s0 = "s\<lparr>attempts := attempts s @ [M1_UNLOAD]\<rparr>"
  have k0: "station2_kept s ?s0" by (simp add: station2_kept_attempt)
  show ?thesis
  proof (cases "run_next (plan_open_machine1 (cfg s)) (plan_timeout_s (cfg s)) ps ?s0")
    case (Polling s1)
    then show ?thesis
      using True station2_kept_trans[OF k0 run_next_station2_P[OF Polling]]
      by (simp add: m1_unload_def block_state_def)
  next
    case (Returned x)
    obtain ok ps1 s1 where x: "x = (ok, ps1, s1)" by (cases x)
    have k1: "station2_kept s s1"
      using station2_kept_trans[OF k0 run_next_station2_R[OF Returned[unfolded x]]] .
    have k2: "station2_kept s (block_state (m1_place plan ps1 s1))" for plan
      using station2_kept_trans[OF k1 m1_place_station2] .
    have k3: "station2_kept s (log m s1)" for m
      using station2_kept_trans[OF k1 env_frame_station2[OF env_frame_log]] .
    show ?thesis
      using True Returned x k1 k2 k3
      by (auto simp: m1_unload_def Let_def split: option.splits)
         (simp_all add: block_state_def)
  qed
qed

lemma m2_load_station1: "station1_kept s (block_state (m2_load (p, ps, s)))"
proof (cases "m2_load_guard p s")
  case False
  then show ?thesis by (simp add: m2_load_skip block_state_def station1_kept_refl)
next
  case True
  let ?s0 = "s\<lparr>attempts := attempts s @ [M2_LOAD]\<rparr>"
  have k0: "station1_kept s ?s0" by (simp add: station1_kept_attempt)
  show ?thesis
  proof (cases "run_next (format_slot (plan_pick_fmt2 (cfg s)) (current_slot2 s))
                  (plan_timeout_s (cfg s)) ps ?s0")
    case (Polling s1)
    then show ?thesis
      using True station1_kept_trans[OF k0 run_next_station1_P[OF Polling]]
      by (simp add: m2_load_def block_state_def)
  next
    case (Returned x)
    obtain ok ps1 s1 where x: "x = (ok, ps1, s1)" by (cases x)
    have k1: "station1_kept s s1"
      using station1_kept_trans[OF k0 run_next_station1_R[OF Returned[unfolded x]]] .
    show ?thesis
    proof (cases "run_next (plan_close_machine2 (cfg s1)) (plan_timeout_s (cfg s1)) ps1 s1")
      case (Polling s2)
      then show ?thesis
        using True Returned x k1 station1_kept_trans[OF k1 run_next_station1_P[OF Polling]]
        by (simp add: m2_load_def block_state_def)
    next
      case R2: (Returned y)
      obtain ok2 ps2 s2 where y: "y = (ok2, ps2, s2)" by (cases y)
      have k2: "station1_kept s s2"
        using station1_kept_trans[OF k1 run_next_station1_R[OF R2[unfolded y]]] .
      have k3: "station1_kept s (s2\<lparr>awaiting_result2 := True,
                  current_slot2 := current_slot2 s2 + 1,
                  tester_operating2 := True, tester_loaded2 := True\<rparr>)"
        using k2 by (simp add: station1_kept_def m1_attempts_def)
      show ?thesis
        using True Returned x R2 y k1 k2 k3
        by (simp add: m2_load_def block_state_def)
    qed
  qed
qed

lemma m1_load_station2: "station2_kept s (block_state (m1_load (p, ps, s)))"
proof (cases "m1_load_guard p s")
  case False
  then show ?thesis by (simp add: m1_load_skip block_state_def station2_kept_refl)
next
  case True
  let ?s0 = "s\<lparr>attempts := attempts s @ [M1_LOAD]\<rparr>"
  have k0: "station2_kept s ?s0" by (simp add: station2_kept_attempt)
  show ?thesis
  proof (cases "run_next (format_slot (plan_pick_fmt1 (cfg s)) (current_slot1 s))
                  (plan_timeout_s (cfg s)) ps ?s0")
    case (Polling s1)
    then show ?thesis
      using True station2_kept_trans[OF k0 run_next_station2_P[OF Polling]]
      by (simp add: m1_load_def block_state_def)
  next
    case (Returned x)
    obtain ok ps1 s1 where x: "x = (ok, ps1, s1)" by (cases x)
    have k1: "station2_kept s s1"
      using station2_kept_trans[OF k0 run_next_station2_R[OF Returned[unfolded x]]] .
    show ?thesis
    proof (cases "run_next (plan_close_machine1 (cfg s1)) (plan_timeout_s (cfg s1)) ps1 s1")
      case (Polling s2)
      then show ?thesis
        using True Returned x k1 station2_kept_trans[OF k1 run_next_station2_P[OF Polling]]
        by (simp add: m1_load_def block_state_def)
    next
      case R2: (Returned y)
      obtain ok2 ps2 s2 where y: "y = (ok2, ps2, s2)" by (cases y)
      have k2: "station2_kept s s2"
        using station2_kept_trans[OF k1 run_next_station2_R[OF R2[unfolded y]]] .
      have k3: "station2_kept s (s2\<lparr>awaiting_result1 := True,
                  current_slot1 := current_slot1 s2 + 1,
                  tester_operating1 := True, tester_loaded1 := True\<rparr>)"
        using k2 by (simp add: station2_kept_def m2_attempts_def)
      show ?thesis
        using True Returned x R2 y k1 k2 k3
        by (simp add: m1_load_def block_state_def)
    qed
  qed
qed

lemma m1_unload_done: "m1_done s \<Longrightarrow> m1_unload (p, ps, s) = Next (p, ps, s)"
  by (rule m1_unload_skip) (simp add: m1_done_def m1_unload_guard_def)

lemma m1_load_done: "m1_done s \<Longrightarrow> m1_load (p, ps, s) = Next (p, ps, s)"
  by (rule m1_load_skip) (simp add: m1_done_def m1_load_guard_def)

lemma m2_unload_done: "m2_done s \<Longrightarrow> m2_unload (p, ps, s) = Next (p, ps, s)"
  by (rule m2_unload_skip) (simp add: m2_done_def m2_unload_guard_def)

lemma m2_load_done: "m2_done s \<Longrightarrow> m2_load (p, ps, s) = Next (p, ps, s)"
  by (rule m2_load_skip) (simp add: m2_done_def m2_load_guard_def)

lemma env_frame_finish: "env_frame s (flow_state (finish (p, ps, s)))"
  by (simp add: finish_def flow_state_def env_frame_log env_frame_sleep env_frame_refl)

lemma then_do_station1:
  assumes "station1_kept s (block_state r)"
    and "\<And>p ps s'. station1_kept s' (block_state (f (p, ps, s')))"
  shows "station1_kept s (block_state (then_do r f))"
proof (cases r)
  case (Next c)
  obtain p ps s' where c: "c = (p, ps, s')" by (cases c)
  show ?thesis
    using assms(1) assms(2)[of s' p ps] Next c
    by (auto simp: then_do_def block_state_def intro: station1_kept_trans)
qed (use assms(1) in \<open>simp_all add: then_do_def block_state_def\<close>)

lemma then_do_station2:
  assumes "station2_kept s (block_state r)"
    and "\<And>p ps s'. station2_kept s' (block_state (f (p, ps, s')))"
  shows "station2_kept s (block_state (then_do r f))"
proof (cases r)
  case (Next c)
  obtain p ps s' where c: "c = (p, ps, s')" by (cases c)
  show ?thesis
    using assms(1) assms(2)[of s' p ps] Next c
    by (auto simp: then_do_def block_state_def intro: station2_kept_trans)
qed (use assms(1) in \<open>simp_all add: then_do_def block_state_def\<close>)

lemma then_finish_station1:
  assumes "station1_kept s (block_state r)"
  shows "station1_kept s (flow_state (then_do r finish))"
proof (cases r)
  case (Next c)
  obtain p ps s' where c: "c = (p, ps, s')" by (cases c)
  show ?thesis
    using assms Next c env_frame_station1[OF env_frame_finish[of s' p ps]]
    by (auto simp: then_do_def block_state_def intro: station1_kept_trans)
qed (use assms in \<open>simp_all add: then_do_def block_state_def flow_state_def\<close>)

lemma then_finish_station2:
  assumes "station2_kept s (block_state r)"
  shows "station2_kept s (flow_state (then_do r finish))"
proof (cases r)
  case (Next c)
  obtain p ps s' where c: "c = (p, ps, s')" by (cases c)
  show ?thesis
    using assms Next c env_frame_station2[OF env_frame_finish[of s' p ps]]
    by (auto simp: then_do_def block_state_def intro: station2_kept_trans)
qed (use assms in \<open>simp_all add: then_do_def block_state_def flow_state_def\<close>)

lemma then_m2_unload_done:
  assumes "m2_done s" "station2_kept s (block_state r)"
  shows "then_do r m2_unload = r"
proof (cases r)
  case (Next c)
  obtain p ps s' where c: "c = (p, ps, s')" by (cases c)
  have "m2_done s'"
    using station2_kept_done[OF assms] Next c by (simp add: block_state_def)
  then show ?thesis using Next c by (simp add: then_do_def m2_unload_done)
qed (simp_all add: then_do_def)

lemma then_m2_load_done:
  assumes "m2_done s" "station2_kept s (block_state r)"
  shows "then_do r m2_load = r"
proof (cases r)
  case (Next c)
  obtain p ps s' where c: "c = (p, ps, s')" by (cases c)
  have "m2_done s'"
    using station2_kept_done[OF assms] Next c by (simp add: block_state_def)
  then show ?thesis using Next c by (simp add: then_do_def m2_load_done)
qed (simp_all add: then_do_def)

lemma loop_body_station1:
  assumes "m1_done s"
  shows "station1_kept s (flow_state (loop_body ts s))"
proof -
  let ?s1 = "absorb s"
  have k: "station1_kept s ?s1" by (rule env_frame_station1) (rule env_frame_absorb)
  have d: "m1_done ?s1" using station1_kept_done[OF assms k] .
  have e: "loop_body ts s =
      then_do (then_do (m2_unload (False, plans ts, ?s1)) m2_load) finish"
    by (simp add: loop_body_def m1_unload_done[OF d] m1_load_done[OF d] then_do_Next)
  have "station1_kept ?s1 (flow_state (loop_body ts s))"
    unfolding e
    by (intro then_finish_station1 then_do_station1 m2_unload_station1 m2_load_station1)
  then show ?thesis using k station1_kept_trans by blast
qed

lemma loop_body_station2:
  assumes "m2_done s"
  shows "station2_kept s (flow_state (loop_body ts s))"
proof -
  let ?s1 = "absorb s"
  let ?r = "then_do (m1_unload (False, plans ts, ?s1)) m1_load"
  have k: "station2_kept s ?s1" by (rule env_frame_station2) (rule env_frame_absorb)
  have d: "m2_done ?s1" using station2_kept_done[OF assms k] .
  have r: "station2_kept ?s1 (block_state ?r)"
    by (intro then_do_station2 m1_unload_station2 m1_load_station2)
  have e: "loop_body ts s = then_do ?r finish"
    by (simp add: loop_body_def then_m2_unload_done[OF d r] then_m2_load_done[OF d r])
  have "station2_kept ?s1 (flow_state (loop_body ts s))"
    unfolding e by (rule then_finish_station2) (rule r)
  then show ?thesis using k station2_kept_trans by blast
qed

lemma iteration_station1:
  assumes "m1_done s"
  shows "station1_kept s (flow_state (iteration ts s))"
proof (cases "wait_if_user_paused (pause_polls ts) s")
  case (Polling s1)
  then show ?thesis
    using env_frame_station1[OF env_frame_wait[of s "pause_polls ts"]]
    by (simp add: iteration_def flow_state_def outcome_state_def)
next
  case (Returned s1)
  have k: "station1_kept s s1"
    using env_frame_station1[OF env_frame_wait[of s "pause_polls ts"]] Returned
    by (simp add: outcome_state_def)
  show ?thesis
    using Returned k station1_kept_trans[OF k loop_body_station1[OF station1_kept_done[OF assms k]]]
    by (simp add: iteration_def flow_state_def)
qed

lemma iteration_station2:
  assumes "m2_done s"
  shows "station2_kept s (flow_state (iteration ts s))"
proof (cases "wait_if_user_paused (pause_polls ts) s")
  case (Polling s1)
  then show ?thesis
    using env_frame_station2[OF env_frame_wait[of s "pause_polls ts"]]
    by (simp add: iteration_def flow_state_def outcome_state_def)
next
  case (Returned s1)
  have k: "station2_kept s s1"
    using env_frame_station2[OF env_frame_wait[of s "pause_polls ts"]] Returned
    by (simp add: outcome_state_def)
  show ?thesis
    using Returned k station2_kept_trans[OF k loop_body_station2[OF station2_kept_done[OF assms k]]]
    by (simp add: iteration_def flow_state_def)
qed

lemma worker_loop_station1:
  "m1_done s \<Longrightarrow> station1_kept s (outcome_state (worker_loop scripts s))"
proof (induction scripts arbitrary: s)
  case Nil
  show ?case by (simp add: outcome_state_def station1_kept_refl)
next
  case (Cons ts rest)
  show ?case
  proof (cases "stop_flag s")
    case True
    then show ?thesis by (simp add: outcome_state_def station1_kept_refl)
  next
    case False
    note it = iteration_station1[OF Cons.prems, of ts]
    show ?thesis
    proof (cases "iteration ts s")
      case (Next s')
      let ?s2 = "apply_events (arrivals ts) s'"
      have k1: "station1_kept s s'" using it Next by (simp add: flow_state_def)
      have k2: "station1_kept s ?s2"
        using station1_kept_trans[OF k1 env_frame_station1[OF env_frame_apply_events]] .
      have "station1_kept ?s2 (outcome_state (worker_loop rest ?s2))"
        by (rule Cons.IH) (rule station1_kept_done[OF Cons.prems k2])
      then show ?thesis
        using False Next station1_kept_trans[OF k2] by simp
    next
      case (Break s')
      then show ?thesis using False it by (simp add: flow_state_def outcome_state_def)
    next
      case (Blocked s')
      then show ?thesis using False it by (simp add: flow_state_def outcome_state_def)
    qed
  qed
qed

lemma worker_loop_station2:
  "m2_done s \<Longrightarrow> station2_kept s (outcome_state (worker_loop scripts s))"
proof (induction scripts arbitrary: s)
  case Nil
  show ?case by (simp add: outcome_state_def station2_kept_refl)
next
  case (Cons ts rest)
  show ?case
  proof (cases "stop_flag s")
    case True
    then show ?thesis by (simp add: outcome_state_def station2_kept_refl)
  next
    case False
    note it = iteration_station2[OF Cons.prems, of ts]
    show ?thesis
    proof (cases "iteration ts s")
      case (Next s')
      let ?s2 = "apply_events (arrivals ts) s'"
      have k1: "station2_kept s s'" using it Next by (simp add: flow_state_def)
      have k2: "station2_kept s ?s2"
        using station2_kept_trans[OF k1 env_frame_station2[OF env_frame_apply_events]] .
      have "station2_kept ?s2 (outcome_state (worker_loop rest ?s2))"
        by (rule Cons.IH) (rule station2_kept_done[OF Cons.prems k2])
      then show ?thesis
        using False Next station2_kept_trans[OF k2] by simp
    next
      case (Break s')
      then show ?thesis using False it by (simp add: flow_state_def outcome_state_def)
    next
      case (Blocked s')
      then show ?thesis using False it by (simp add: flow_state_def outcome_state_def)
    qed
  qed
qed

lemma prologue_station1: "station1_kept s (worker_prologue p1 p2 s)"
  by (cases p1; cases p2)
     (simp_all add: station1_kept_def m1_attempts_def worker_prologue_def test_comms_def
        ping_serial_def log_def Let_def)

lemma prologue_station2: "station2_kept s (worker_prologue p1 p2 s)"
  by (cases p1; cases p2)
     (simp_all add: station2_kept_def m2_attempts_def worker_prologue_def test_comms_def
        ping_serial_def log_def Let_def)

lemma apply_event_backend_calls: "backend_calls (apply_event e s) = backend_calls s"
  by (cases e)
     (simp_all add: on_backend_event_def stop_def stop_listener_def pause_def resume_def
        external_test_complete_def log_def Let_def)

lemma apply_events_backend_calls: "backend_calls (apply_events es s) = backend_calls s"
  by (induction es arbitrary: s) (simp_all add: apply_event_backend_calls)

lemma wait_backend_calls:
  "backend_calls (outcome_state (wait_if_user_paused pp s)) = backend_calls s"
proof (induction pp arbitrary: s)
  case Nil
  show ?case by (simp add: outcome_state_def)
next
  case (Cons evs pp)
  show ?case
    using Cons[of "apply_events evs (sleep 0.05 s)"]
    by (simp add: outcome_state_def apply_events_backend_calls sleep_def)
qed

lemma wait_not_paused: "\<not> user_pause s \<Longrightarrow> wait_if_user_paused pp s = Returned s"
  by (cases pp) simp_all

lemma wait_polling_paused:
  "wait_if_user_paused pp s = Polling s' \<Longrightarrow> user_pause s' \<and> \<not> stop_flag s'"
  by (induction pp arbitrary: s) (auto split: if_splits)

lemma loop_body_all_done:
  assumes "m1_done s" "m2_done s"
  shows "loop_body ts s = Break (log LogAllDone (absorb s))"
proof -
  have d1: "m1_done (absorb s)"
    using station1_kept_done[OF assms(1) env_frame_station1[OF env_frame_absorb]] .
  have d2: "m2_done (absorb s)"
    using station2_kept_done[OF assms(2) env_frame_station2[OF env_frame_absorb]] .
  show ?thesis
    using d1 d2
    by (simp add: loop_body_def m1_unload_done m1_load_done m2_unload_done m2_load_done
        then_do_Next finish_def)
qed

lemma absorb_backend_calls: "backend_calls (absorb s) = backend_calls s"
  by (simp add: absorb_def Let_def)

lemma iteration_all_done:
  assumes "m1_done s" "m2_done s"
  shows "\<not> is_next (iteration ts s)
     \<and> backend_calls (flow_state (iteration ts s)) = backend_calls s
     \<and> attempts (flow_state (iteration ts s)) = attempts s
     \<and> (\<forall>s'. iteration ts s = Blocked s' \<longrightarrow> user_pause s' \<and> \<not> stop_flag s')"
proof (cases "wait_if_user_paused (pause_polls ts) s")
  case (Polling s1)
  then show ?thesis
    using wait_backend_calls[of "pause_polls ts" s] wait_attempts[of "pause_polls ts" s]
      wait_polling_paused[OF Polling]
    by (simp add: iteration_def is_next_def flow_state_def outcome_state_def)
next
  case (Returned s1)
  have f: "env_frame s s1"
    using env_frame_wait[of s "pause_polls ts"] Returned by (simp add: outcome_state_def)
  have d: "m1_done s1" "m2_done s1"
    using station1_kept_done[OF assms(1) env_frame_station1[OF f]]
      station2_kept_done[OF assms(2) env_frame_station2[OF f]] by simp_all
  have b: "backend_calls s1 = backend_calls s" "attempts s1 = attempts s"
    using wait_backend_calls[of "pause_polls ts" s] wait_attempts[of "pause_polls ts" s] Returned
    by (simp_all add: outcome_state_def)
  have a: "attempts (absorb s1) = attempts s1"
    using env_frame_absorb[of s1] by (simp add: env_frame_def)
  show ?thesis
    using Returned b a loop_body_all_done[OF d, of ts]
    by (simp add: iteration_def is_next_def flow_state_def log_def absorb_backend_calls)
qed

lemma worker_loop_all_done:
  assumes "m1_done s" "m2_done s"
  shows "backend_calls (outcome_state (worker_loop scripts s)) = backend_calls s
     \<and> attempts (outcome_state (worker_loop scripts s)) = attempts s
     \<and> (scripts \<noteq> [] \<longrightarrow>
          has_returned (worker_loop scripts s)
          \<or> (user_pause (outcome_state (worker_loop scripts s))
              \<and> \<not> stop_flag (outcome_state (worker_loop scripts s))))
     \<and> (scripts \<noteq> [] \<and> \<not> user_pause s \<longrightarrow> has_returned (worker_loop scripts s))"
proof (cases scripts)
  case Nil
  then show ?thesis by (simp add: outcome_state_def)
next
  case (Cons ts rest)
  note it = iteration_all_done[OF assms, of ts]
  show ?thesis
  proof (cases "stop_flag s")
    case True
    then show ?thesis using Cons by (simp add: outcome_state_def has_returned_def)
  next
    case False
    show ?thesis
    proof (cases "iteration ts s")
      case (Next s')
      then show ?thesis using it by (simp add: is_next_def)
    next
      case (Break s')
      then show ?thesis
        using it False Cons by (simp add: flow_state_def outcome_state_def has_returned_def)
    next
      case (Blocked s')
      have np: "\<not> user_pause s \<Longrightarrow> False"
        using Blocked wait_not_paused[of s "pause_polls ts"]
        by (simp add: iteration_def loop_body_all_done[OF assms] split: if_splits)
      show ?thesis
        using it False Cons Blocked np
        by (auto simp: flow_state_def outcome_state_def has_returned_def)
    qed
  qed
qed

lemma prologue_frame:
  "backend_calls (worker_prologue p1 p2 s) = backend_calls s"
  "attempts (worker_prologue p1 p2 s) = attempts s"
  "user_pause (worker_prologue p1 p2 s) = user_pause s"
  "stop_flag (worker_prologue p1 p2 s) = stop_flag s"
  by (cases p1; cases p2;
      simp add: worker_prologue_def test_comms_def ping_serial_def log_def Let_def)+

lemma finally_backend_calls: "backend_calls (worker_finally s) = backend_calls s"
  by (simp add: worker_finally_def reset_def stop_listener_def log_def Let_def)

text \<open>
  Claim C9. Let the worker start on an object whose station has capacity 0 and is as
  construction and \<open>reset\<close> leave it (slot index 1, not loaded, not testing). Then,
  whatever the other threads and the backend do and however long the loop has run, the
  station is drained (slot index above capacity, not loaded, not testing) and none of
  its two blocks has been entered, so no plan has been run for it. When both stations
  have capacity 0, the worker makes no call on the backend and enters no block; if the
  operator has not paused the object it returns in its first pass, and in general it
  returns unless it is still held in the pause wait.
\<close>

theorem capacity_zero_drains_without_plans:
  "(total_slots1 (cfg s0) = 0 \<and> current_slot1 s0 = 1
      \<and> \<not> tester_loaded1 s0 \<and> \<not> tester_operating1 s0 \<longrightarrow>
      m1_done (outcome_state (worker_loop scripts (worker_prologue p1 p2 s0)))
      \<and> m1_attempts (outcome_state (worker_loop scripts (worker_prologue p1 p2 s0)))
          = m1_attempts s0)
   \<and> (total_slots2 (cfg s0) = 0 \<and> current_slot2 s0 = 1
      \<and> \<not> tester_loaded2 s0 \<and> \<not> tester_operating2 s0 \<longrightarrow>
      m2_done (outcome_state (worker_loop scripts (worker_prologue p1 p2 s0)))
      \<and> m2_attempts (outcome_state (worker_loop scripts (worker_prologue p1 p2 s0)))
          = m2_attempts s0)
   \<and> (total_slots1 (cfg s0) = 0 \<and> current_slot1 s0 = 1
      \<and> \<not> tester_loaded1 s0 \<and> \<not> tester_operating1 s0
      \<and> total_slots2 (cfg s0) = 0 \<and> current_slot2 s0 = 1
      \<and> \<not> tester_loaded2 s0 \<and> \<not> tester_operating2 s0 \<longrightarrow>
      backend_calls (outcome_state (worker p1 p2 scripts s0)) = backend_calls s0
      \<and> attempts (outcome_state (worker_loop scripts (worker_prologue p1 p2 s0))) = attempts s0
      \<and> (scripts \<noteq> [] \<and> \<not> user_pause s0 \<longrightarrow> has_returned (worker p1 p2 scripts s0))
      \<and> (scripts \<noteq> [] \<longrightarrow>
            has_returned (worker p1 p2 scripts s0)
            \<or> (user_pause (outcome_state (worker p1 p2 scripts s0))
                \<and> \<not> stop_flag (outcome_state (worker p1 p2 scripts s0)))))"
proof -
  let ?s1 = "worker_prologue p1 p2 s0"
  let ?r = "worker_loop scripts ?s1"
  have a1: "m1_done (outcome_state ?r) \<and> m1_attempts (outcome_state ?r) = m1_attempts s0"
    if h: "total_slots1 (cfg s0) = 0" "current_slot1 s0 = 1"
      "\<not> tester_loaded1 s0" "\<not> tester_operating1 s0"
  proof -
    have d0: "m1_done s0" using h by (simp add: m1_done_def)
    have d1: "m1_done ?s1" using station1_kept_done[OF d0 prologue_station1] .
    have k: "station1_kept s0 (outcome_state ?r)"
      using station1_kept_trans[OF prologue_station1 worker_loop_station1[OF d1]] .
    show ?thesis using station1_kept_done[OF d0 k] k by (simp add: station1_kept_def)
  qed
  have a2: "m2_done (outcome_state ?r) \<and> m2_attempts (outcome_state ?r) = m2_attempts s0"
    if h: "total_slots2 (cfg s0) = 0" "current_slot2 s0 = 1"
      "\<not> tester_loaded2 s0" "\<not> tester_operating2 s0"
  proof -
    have d0: "m2_done s0" using h by (simp add: m2_done_def)
    have d1: "m2_done ?s1" using station2_kept_done[OF d0 prologue_station2] .
    have k: "station2_kept s0 (outcome_state ?r)"
      using station2_kept_trans[OF prologue_station2 worker_loop_station2[OF d1]] .
    show ?thesis using station2_kept_done[OF d0 k] k by (simp add: station2_kept_def)
  qed
  have b: "backend_calls (outcome_state (worker p1 p2 scripts s0)) = backend_calls s0
      \<and> attempts (outcome_state ?r) = attempts s0
      \<and> (scripts \<noteq> [] \<and> \<not> user_pause s0 \<longrightarrow> has_returned (worker p1 p2 scripts s0))
      \<and> (scripts \<noteq> [] \<longrightarrow>
            has_returned (worker p1 p2 scripts s0)
            \<or> (user_pause (outcome_state (worker p1 p2 scripts s0))
                \<and> \<not> stop_flag (outcome_state (worker p1 p2 scripts s0))))"
    if h1: "total_slots1 (cfg s0) = 0" "current_slot1 s0 = 1"
      "\<not> tester_loaded1 s0" "\<not> tester_operating1 s0"
      and h2: "total_slots2 (cfg s0) = 0" "current_slot2 s0 = 1"
      "\<not> tester_loaded2 s0" "\<not> tester_operating2 s0"
  proof -
    have d1: "m1_done ?s1"
      using station1_kept_done[OF _ prologue_station1, of s0] h1 by (simp add: m1_done_def)
    have d2: "m2_done ?s1"
      using station2_kept_done[OF _ prologue_station2, of s0] h2 by (simp add: m2_done_def)
    note w = worker_loop_all_done[OF d1 d2, of scripts]
    show ?thesis
    proof (cases ?r)
      case (Returned x)
      then show ?thesis
        using w
        by (simp add: worker_def outcome_state_def has_returned_def prologue_frame
            finally_backend_calls)
    next
      case (Polling x)
      then show ?thesis
        using w
        by (simp add: worker_def outcome_state_def has_returned_def prologue_frame)
    qed
  qed
  show ?thesis using a1 a2 b by blast
qed

theorem capacity_zero_drains_without_plans_witness:
  "total_slots1 (cfg (start_seq_worker (Some 0) (init default_config))) = 0
   \<and> total_slots2 (cfg (start_seq_worker (Some 0) (init default_config))) = 0
   \<and> current_slot1 (start_seq_worker (Some 0) (init default_config)) = 1
   \<and> current_slot2 (start_seq_worker (Some 0) (init default_config)) = 1
   \<and> \<not> tester_loaded1 (start_seq_worker (Some 0) (init default_config))
   \<and> \<not> tester_operating1 (start_seq_worker (Some 0) (init default_config))
   \<and> \<not> tester_loaded2 (start_seq_worker (Some 0) (init default_config))
   \<and> \<not> tester_operating2 (start_seq_worker (Some 0) (init default_config))
   \<and> [quiet_tick] \<noteq> []
   \<and> \<not> user_pause (start_seq_worker (Some 0) (init default_config))
   \<and> has_returned (worker PingOk PingOk [quiet_tick]
         (start_seq_worker (Some 0) (init default_config)))
   \<and> backend_calls (outcome_state (worker PingOk PingOk [quiet_tick]
         (start_seq_worker (Some 0) (init default_config)))) = []
   \<and> m1_done (outcome_state (worker_loop [quiet_tick]
         (worker_prologue PingOk PingOk (start_seq_worker (Some 0) (init default_config)))))
   \<and> m2_done (outcome_state (worker_loop [quiet_tick]
         (worker_prologue PingOk PingOk (start_seq_worker (Some 0) (init default_config)))))
   \<and> attempts (outcome_state (worker_loop [quiet_tick]
         (worker_prologue PingOk PingOk (start_seq_worker (Some 0) (init default_config))))) = []"
proof -
  note defs = start_seq_worker_def start_listener_def init_def default_config_def log_def Let_def
  have h: "total_slots1 (cfg (start_seq_worker (Some 0) (init default_config))) = 0"
    "total_slots2 (cfg (start_seq_worker (Some 0) (init default_config))) = 0"
    "current_slot1 (start_seq_worker (Some 0) (init default_config)) = 1"
    "current_slot2 (start_seq_worker (Some 0) (init default_config)) = 1"
    "\<not> tester_loaded1 (start_seq_worker (Some 0) (init default_config))"
    "\<not> tester_operating1 (start_seq_worker (Some 0) (init default_config))"
    "\<not> tester_loaded2 (start_seq_worker (Some 0) (init default_config))"
    "\<not> tester_operating2 (start_seq_worker (Some 0) (init default_config))"
    "\<not> user_pause (start_seq_worker (Some 0) (init default_config))"
    "backend_calls (start_seq_worker (Some 0) (init default_config)) = []"
    "attempts (start_seq_worker (Some 0) (init default_config)) = []"
    by (simp_all add: defs)
  show ?thesis
    using h capacity_zero_drains_without_plans[of "start_seq_worker (Some 0) (init default_config)"
        "[quiet_tick]" PingOk PingOk]
    by simp
qed

section \<open>The exit path of the worker\<close>

lemma stopped_run_exit:
  "has_returned (worker_loop [stopped_tick] started_object)
   \<and> tester_loaded1 (outcome_state (worker_loop [stopped_tick] started_object))
   \<and> tester_operating1 (outcome_state (worker_loop [stopped_tick] started_object))
   \<and> awaiting_result1 (outcome_state (worker_loop [stopped_tick] started_object))
   \<and> current_slot1 (outcome_state (worker_loop [stopped_tick] started_object)) = 2
   \<and> stop_flag (outcome_state (worker_loop [stopped_tick] started_object))"
  by (simp add: stopped_tick_def started_object_def completing_plan_def
      iteration_def loop_body_def then_do_def m1_unload_def m1_load_def m2_unload_def m2_load_def
      finish_def m1_done_def m2_done_def m1_unload_guard_def m1_load_guard_def
      m2_unload_guard_def m2_load_guard_def
      absorb_def run_next_def run_micro_plan_def poll_once_def on_backend_event_def
      stop_def stop_listener_def
      worker_prologue_def test_comms_def ping_serial_def start_seq_worker_def start_listener_def
      init_def default_config_def log_def sleep_def outcome_state_def has_returned_def Let_def
      str_int_def dec_nat.simps digit_char_def)

lemma finally_fields:
  "\<not> tester_loaded1 (worker_finally x) \<and> \<not> tester_loaded2 (worker_finally x)
   \<and> \<not> tester_operating1 (worker_finally x) \<and> \<not> tester_operating2 (worker_finally x)
   \<and> tester_result1 (worker_finally x) = None \<and> tester_result2 (worker_finally x) = None
   \<and> current_slot1 (worker_finally x) = 1 \<and> current_slot2 (worker_finally x) = 1
   \<and> \<not> stop_flag (worker_finally x) \<and> \<not> user_pause (worker_finally x)
   \<and> tester_commready1 (worker_finally x) = tester_commready1 x
   \<and> tester_commready2 (worker_finally x) = tester_commready2 x
   \<and> cfg (worker_finally x) = cfg x
   \<and> get_state (worker_finally x)
        = \<lparr> slot = 1, step = 0, running = False, view_preamble_done = False \<rparr>"
  by (simp add: worker_finally_def reset_def stop_listener_def log_def get_state_def Let_def)

text \<open>
  Claim C1, as stated: when the worker loop exits, every field of the two stations keeps
  the value it had at the moment of exit. It fails on the run in which machine 1 is
  loaded and the operator then calls \<open>stop\<close>: at the exit of the loop machine 1 is
  loaded and its slot index is 2; when the worker has returned, machine 1 is not loaded
  and its slot index is 1.
\<close>

theorem worker_exit_keeps_station_state_counterexample:
  "has_returned (worker_loop [stopped_tick] started_object)
   \<and> has_returned (worker PingOk PingOk [stopped_tick] (start_seq_worker None (init default_config)))
   \<and> tester_loaded1 (outcome_state (worker_loop [stopped_tick] started_object))
   \<and> \<not> tester_loaded1 (outcome_state
          (worker PingOk PingOk [stopped_tick] (start_seq_worker None (init default_config))))
   \<and> current_slot1 (outcome_state (worker_loop [stopped_tick] started_object)) = 2
   \<and> current_slot1 (outcome_state
          (worker PingOk PingOk [stopped_tick] (start_seq_worker None (init default_config)))) = 1"
proof -
  note e = stopped_run_exit
  obtain x where x: "worker_loop [stopped_tick] started_object = Returned x"
    using e by (cases "worker_loop [stopped_tick] started_object") (simp_all add: has_returned_def)
  have w: "worker PingOk PingOk [stopped_tick] (start_seq_worker None (init default_config))
      = Returned (worker_finally x)"
    using x by (simp add: worker_def started_object_def)
  show ?thesis
    using e finally_fields[of x] unfolding w x
    by (simp add: has_returned_def outcome_state_def)
qed

text \<open>
  Claim C1, amended. When the worker loop exits, for whatever reason, the \<open>finally\<close>
  clause of the worker calls \<open>reset\<close>: for both stations the loaded and testing flags
  are false, the verdict is empty and the slot index is 1; the stop and pause flags are
  cleared; the comm-ready flags and the configuration keep the values they had at the
  exit of the loop; \<open>get_state\<close> then reports slot 1, step 0, not running.
\<close>

theorem worker_exit_resets_station_state:
  "worker_loop scripts (worker_prologue p1 p2 s) = Returned x \<Longrightarrow>
   worker p1 p2 scripts s = Returned (worker_finally x)
   \<and> \<not> tester_loaded1 (worker_finally x) \<and> \<not> tester_loaded2 (worker_finally x)
   \<and> \<not> tester_operating1 (worker_finally x) \<and> \<not> tester_operating2 (worker_finally x)
   \<and> tester_result1 (worker_finally x) = None \<and> tester_result2 (worker_finally x) = None
   \<and> current_slot1 (worker_finally x) = 1 \<and> current_slot2 (worker_finally x) = 1
   \<and> \<not> stop_flag (worker_finally x) \<and> \<not> user_pause (worker_finally x)
   \<and> tester_commready1 (worker_finally x) = tester_commready1 x
   \<and> tester_commready2 (worker_finally x) = tester_commready2 x
   \<and> cfg (worker_finally x) = cfg x
   \<and> get_state (worker_finally x)
        = \<lparr> slot = 1, step = 0, running = False, view_preamble_done = False \<rparr>"
  using finally_fields[of x] by (simp add: worker_def)

theorem worker_exit_resets_station_state_witness:
  "worker_loop [stopped_tick]
       (worker_prologue PingOk PingOk (start_seq_worker None (init default_config)))
     = Returned (outcome_state (worker_loop [stopped_tick] started_object))
   \<and> tester_loaded1 (outcome_state (worker_loop [stopped_tick] started_object)) \<and> tester_operating1 (outcome_state (worker_loop [stopped_tick] started_object)) \<and> current_slot1 (outcome_state (worker_loop [stopped_tick] started_object)) = 2 \<and> stop_flag (outcome_state (worker_loop [stopped_tick] started_object))
   \<and> worker PingOk PingOk [stopped_tick] (start_seq_worker None (init default_config)) = Returned (worker_finally (outcome_state (worker_loop [stopped_tick] started_object)))
   \<and> \<not> tester_loaded1 (worker_finally (outcome_state (worker_loop [stopped_tick] started_object)))
   \<and> \<not> tester_operating1 (worker_finally (outcome_state (worker_loop [stopped_tick] started_object)))
   \<and> tester_result1 (worker_finally (outcome_state (worker_loop [stopped_tick] started_object))) = None
   \<and> current_slot1 (worker_finally (outcome_state (worker_loop [stopped_tick] started_object))) = 1
   \<and> \<not> stop_flag (worker_finally (outcome_state (worker_loop [stopped_tick] started_object)))
   \<and> get_state (worker_finally (outcome_state (worker_loop [stopped_tick] started_object)))
        = \<lparr> slot = 1, step = 0, running = False, view_preamble_done = False \<rparr>"
proof -
  have h: "worker_loop [stopped_tick]
       (worker_prologue PingOk PingOk (start_seq_worker None (init default_config)))
     = Returned (outcome_state (worker_loop [stopped_tick] started_object))"
    using stopped_run_exit
    by (cases "worker_loop [stopped_tick] started_object")
       (simp_all add: has_returned_def outcome_state_def started_object_def)
  show ?thesis
    using h stopped_run_exit worker_exit_resets_station_state[OF h] by blast
qed

section \<open>What \<open>reset\<close> restores\<close>

text \<open>
  Claim C2. After the run in which machine 1 is loaded and the operator calls \<open>stop\<close>,
  the worker has returned and \<open>reset\<close> is called: \<open>awaiting_result1\<close> is still true,
  whereas construction sets it to false.
\<close>

theorem reset_leaves_awaiting_result:
  "has_returned (worker PingOk PingOk [stopped_tick] (start_seq_worker None (init default_config)))
   \<and> awaiting_result1 (reset (outcome_state
        (worker PingOk PingOk [stopped_tick] (start_seq_worker None (init default_config)))))
   \<and> \<not> awaiting_result1 (init default_config)"
proof -
  note e = stopped_run_exit
  obtain x where x: "worker_loop [stopped_tick] started_object = Returned x"
    using e by (cases "worker_loop [stopped_tick] started_object") (simp_all add: has_returned_def)
  have w: "worker PingOk PingOk [stopped_tick] (start_seq_worker None (init default_config))
      = Returned (worker_finally x)"
    using x by (simp add: worker_def started_object_def)
  have a: "awaiting_result1 (reset (worker_finally x)) = awaiting_result1 x"
    by (simp add: worker_finally_def reset_def stop_listener_def log_def Let_def)
  show ?thesis
    using e a unfolding w x
    by (simp add: has_returned_def outcome_state_def init_def)
qed

section \<open>An unrecognised verdict\<close>

lemma invalid_token_normalize:
  assumes "\<not> contains ''PASS'' (upper (strip tok))" "\<not> contains ''FAIL'' (upper (strip tok))"
  shows "normalize_verdict (Some tok) = upper (strip tok)"
    and "upper (strip (upper (strip tok))) \<noteq> ''PASS''"
    and "upper (strip (upper (strip tok))) \<noteq> ''FAIL''"
proof -
  show n: "normalize_verdict (Some tok) = upper (strip tok)"
    using assms by (simp add: normalize_verdict_def Let_def)
  have p: "upper (strip tok) \<noteq> ''PASS''" "upper (strip tok) \<noteq> ''FAIL''"
    using assms by auto
  show "upper (strip (upper (strip tok))) \<noteq> ''PASS''"
    using upper_strip_normalize(1)[of "Some tok"] p unfolding n by simp
  show "upper (strip (upper (strip tok))) \<noteq> ''FAIL''"
    using upper_strip_normalize(2)[of "Some tok"] p unfolding n by simp
qed

lemma m1_unload_invalid:
  assumes g: "m1_unload_guard False s" and na: "\<not> awaiting_result1 s"
    and r: "tester_result1 s = Some r" and v: "upper (strip r) \<noteq> ''PASS''" "upper (strip r) \<noteq> ''FAIL''"
  shows "m1_unload (False, ps, s) =
     (case run_next (plan_open_machine1 (cfg s)) (plan_timeout_s (cfg s)) ps
             (s\<lparr>attempts := attempts s @ [M1_UNLOAD]\<rparr>) of
        Polling s1 \<Rightarrow> Blocked s1
      | Returned (ok, ps1, s1) \<Rightarrow>
          if ok then Break (log (LogInvalidResult 1 r) s1) else Break s1)"
proof -
  let ?s0 = "s\<lparr>attempts := attempts s @ [M1_UNLOAD]\<rparr>"
  let ?run = "run_next (plan_open_machine1 (cfg s)) (plan_timeout_s (cfg s)) ps ?s0"
  show ?thesis
  proof (cases ?run)
    case (Polling s1)
    then show ?thesis using g by (simp add: m1_unload_def)
  next
    case (Returned x)
    obtain ok ps1 s1 where x: "x = (ok, ps1, s1)" by (cases x)
    have "env_frame ?s0 s1" using run_next_Returned[OF Returned[unfolded x]] .
    then have "tester_result1 s1 = Some r"
      using na r by (simp add: env_frame_def)
    then show ?thesis
      using g Returned x v by (simp add: m1_unload_def Let_def)
  qed
qed

lemma m2_unload_invalid:
  assumes g: "m2_unload_guard False s" and na: "\<not> awaiting_result2 s"
    and r: "tester_result2 s = Some r" and v: "upper (strip r) \<noteq> ''PASS''" "upper (strip r) \<noteq> ''FAIL''"
  shows "m2_unload (False, ps, s) =
     (case run_next (plan_open_machine2 (cfg s)) (plan_timeout_s (cfg s)) ps
             (s\<lparr>attempts := attempts s @ [M2_UNLOAD]\<rparr>) of
        Polling s1 \<Rightarrow> Blocked s1
      | Returned (ok, ps1, s1) \<Rightarrow>
          if ok then Break (log (LogInvalidResult 2 r) s1) else Break s1)"
proof -
  let ?s0 = "s\<lparr>attempts := attempts s @ [M2_UNLOAD]\<rparr>"
  let ?run = "run_next (plan_open_machine2 (cfg s)) (plan_timeout_s (cfg s)) ps ?s0"
  show ?thesis
  proof (cases ?run)
    case (Polling s1)
    then show ?thesis using g by (simp add: m2_unload_def)
  next
    case (Returned x)
    obtain ok ps1 s1 where x: "x = (ok, ps1, s1)" by (cases x)
    have "env_frame ?s0 s1" using run_next_Returned[OF Returned[unfolded x]] .
    then have "tester_result2 s1 = Some r"
      using na r by (simp add: env_frame_def)
    then show ?thesis
      using g Returned x v by (simp add: m2_unload_def Let_def)
  qed
qed

lemmas run_defs =
  loaded_object_def both_loaded_object_def quiet_tick_def stopped_tick_def error9_tick_def
  fault_tick_def started_object_def completing_plan_def faulting_plan_def
  iteration_def loop_body_def then_do_def m1_unload_def m1_load_def m2_unload_def m2_load_def
  m1_place_def m2_place_def
  finish_def m1_done_def m2_done_def m1_unload_guard_def m1_load_guard_def
  m2_unload_guard_def m2_load_guard_def
  absorb_def run_next_def run_micro_plan_def poll_once_def on_backend_event_def
  stop_def stop_listener_def external_test_complete_def normalize_verdict_def
  upper_def upper_char_def strip_def is_space_def
  worker_def worker_finally_def reset_def
  worker_prologue_def test_comms_def ping_serial_def start_seq_worker_def start_listener_def
  init_def default_config_def log_def sleep_def
  outcome_state_def flow_state_def block_state_def next_state_def has_returned_def is_next_def
  Let_def str_int_def dec_nat.simps digit_char_def

lemma loaded_object_fields:
  "awaiting_result1 loaded_object" "tester_loaded1 loaded_object"
  "tester_commready1 loaded_object" "tester_operating1 loaded_object"
  "tester_result1 loaded_object = None"
  "cfg loaded_object = default_config"
  by (simp_all add: run_defs)

lemma both_loaded_object_fields:
  "awaiting_result2 both_loaded_object" "tester_loaded2 both_loaded_object"
  "tester_commready2 both_loaded_object" "tester_operating2 both_loaded_object"
  by (simp_all add: run_defs)

text \<open>
  Claim C4, as stated: for a station that awaits a result, a token that contains neither
  PASS nor FAIL makes the run abort with an invalid-verdict report. It fails on the run
  in which machine 1 is loaded, the token \<open>ERROR_9\<close> is delivered while machine 1 awaits
  its result, and the open plan that the unload block runs first is interrupted by a
  fault: the worker returns, the open plan was started after the delivery, and the log
  holds no invalid-result line.
\<close>

theorem invalid_verdict_always_reported_counterexample:
  "awaiting_result1 (flow_state (iteration error9_tick started_object))
   \<and> has_returned (worker_loop [error9_tick, fault_tick] started_object)
   \<and> invalid_reports (log_out (outcome_state (worker_loop [error9_tick, fault_tick] started_object))) = []
   \<and> started (backend_calls (outcome_state (worker_loop [error9_tick, fault_tick] started_object)))
       = [''PickFromTray_1'', ''CloseMachine'', ''OpenMachine'']
   \<and> has_returned (worker PingOk PingOk [error9_tick, fault_tick]
        (start_seq_worker None (init default_config)))
   \<and> invalid_reports (log_out (outcome_state (worker PingOk PingOk [error9_tick, fault_tick]
        (start_seq_worker None (init default_config))))) = []"
  by (simp add: run_defs)

text \<open>
  Claim C4, amended. For a station that awaits a result, an ASCII token that after
  \<open>strip\<close> and \<open>upper\<close> contains neither PASS nor FAIL is stored, in that form, as the
  verdict,
  and the awaiting and testing flags are cleared. When the loop then enters the unload
  block of that station with this verdict, it runs the open plan of the station first:
  if the plan succeeds, the loop logs "Invalid test result" for the station and is left;
  if the plan fails, the loop is left without the report; while the plan has not
  returned, the block waits in it. No place plan is run in any of these cases.
\<close>

theorem invalid_verdict_aborts_at_unload:
  "(awaiting_result1 s0 \<and> ascii_token tok \<and> \<not> contains ''PASS'' (upper (strip tok))
      \<and> \<not> contains ''FAIL'' (upper (strip tok)) \<longrightarrow>
      tester_result1 (external_test_complete 1 (Some tok) s0) = Some (upper (strip tok))
      \<and> \<not> awaiting_result1 (external_test_complete 1 (Some tok) s0)
      \<and> \<not> tester_operating1 (external_test_complete 1 (Some tok) s0))
   \<and> (awaiting_result2 s0 \<and> ascii_token tok \<and> \<not> contains ''PASS'' (upper (strip tok))
      \<and> \<not> contains ''FAIL'' (upper (strip tok)) \<longrightarrow>
      tester_result2 (external_test_complete 2 (Some tok) s0) = Some (upper (strip tok))
      \<and> \<not> awaiting_result2 (external_test_complete 2 (Some tok) s0)
      \<and> \<not> tester_operating2 (external_test_complete 2 (Some tok) s0))
   \<and> (m1_unload_guard False s \<and> \<not> awaiting_result1 s \<and> ascii_token tok
      \<and> tester_result1 s = Some (upper (strip tok))
      \<and> \<not> contains ''PASS'' (upper (strip tok))
      \<and> \<not> contains ''FAIL'' (upper (strip tok)) \<longrightarrow>
      m1_unload (False, ps, s) =
        (case run_next (plan_open_machine1 (cfg s)) (plan_timeout_s (cfg s)) ps
                (s\<lparr>attempts := attempts s @ [M1_UNLOAD]\<rparr>) of
           Polling s1 \<Rightarrow> Blocked s1
         | Returned (ok, ps1, s1) \<Rightarrow>
             if ok then Break (log (LogInvalidResult 1 (upper (strip tok))) s1) else Break s1))
   \<and> (m2_unload_guard False s \<and> \<not> awaiting_result2 s \<and> ascii_token tok
      \<and> tester_result2 s = Some (upper (strip tok))
      \<and> \<not> contains ''PASS'' (upper (strip tok))
      \<and> \<not> contains ''FAIL'' (upper (strip tok)) \<longrightarrow>
      m2_unload (False, ps, s) =
        (case run_next (plan_open_machine2 (cfg s)) (plan_timeout_s (cfg s)) ps
                (s\<lparr>attempts := attempts s @ [M2_UNLOAD]\<rparr>) of
           Polling s1 \<Rightarrow> Blocked s1
         | Returned (ok, ps1, s1) \<Rightarrow>
             if ok then Break (log (LogInvalidResult 2 (upper (strip tok))) s1) else Break s1))"
proof -
  have d1: "tester_result1 (external_test_complete 1 (Some tok) s0) = Some (upper (strip tok))
      \<and> \<not> awaiting_result1 (external_test_complete 1 (Some tok) s0)
      \<and> \<not> tester_operating1 (external_test_complete 1 (Some tok) s0)"
    if "awaiting_result1 s0" "\<not> contains ''PASS'' (upper (strip tok))"
      "\<not> contains ''FAIL'' (upper (strip tok))"
    using that invalid_token_normalize(1)[OF that(2,3)]
    by (simp add: external_test_complete_def log_def Let_def)
  have d2: "tester_result2 (external_test_complete 2 (Some tok) s0) = Some (upper (strip tok))
      \<and> \<not> awaiting_result2 (external_test_complete 2 (Some tok) s0)
      \<and> \<not> tester_operating2 (external_test_complete 2 (Some tok) s0)"
    if "awaiting_result2 s0" "\<not> contains ''PASS'' (upper (strip tok))"
      "\<not> contains ''FAIL'' (upper (strip tok))"
    using that invalid_token_normalize(1)[OF that(2,3)]
    by (simp add: external_test_complete_def log_def Let_def)
  note u1 = m1_unload_invalid[OF _ _ _ invalid_token_normalize(2,3), of s tok ps]
  note u2 = m2_unload_invalid[OF _ _ _ invalid_token_normalize(2,3), of s tok ps]
  show ?thesis using d1 d2 u1 u2 by blast
qed

theorem invalid_verdict_aborts_at_unload_witness:
  "awaiting_result1 loaded_object
   \<and> ascii_token ''ERROR_9''
   \<and> \<not> contains ''PASS'' (upper (strip ''ERROR_9''))
   \<and> \<not> contains ''FAIL'' (upper (strip ''ERROR_9''))
   \<and> tester_result1 (external_test_complete 1 (Some ''ERROR_9'') loaded_object) = Some ''ERROR_9''
   \<and> m1_unload_guard False (external_test_complete 1 (Some ''ERROR_9'') loaded_object)
   \<and> invalid_reports (log_out (block_state (m1_unload
        (False, [completing_plan], external_test_complete 1 (Some ''ERROR_9'') loaded_object))))
       = [(1, ''ERROR_9'')]
   \<and> \<not> is_next (m1_unload
        (False, [completing_plan], external_test_complete 1 (Some ''ERROR_9'') loaded_object))
   \<and> awaiting_result2 both_loaded_object
   \<and> tester_result2 (external_test_complete 2 (Some ''ERROR_9'') both_loaded_object) = Some ''ERROR_9''
   \<and> m2_unload_guard False (external_test_complete 2 (Some ''ERROR_9'') both_loaded_object)
   \<and> \<not> is_next (m2_unload
        (False, [faulting_plan], external_test_complete 2 (Some ''ERROR_9'') both_loaded_object))"
proof -
  let ?s1 = "external_test_complete 1 (Some ''ERROR_9'') loaded_object"
  let ?s2 = "external_test_complete 2 (Some ''ERROR_9'') both_loaded_object"
  have u: "upper (strip ''ERROR_9'') = ''ERROR_9''"
    by (simp add: upper_def upper_char_def strip_def is_space_def)
  have c: "\<not> contains ''PASS'' (upper (strip ''ERROR_9''))"
    "\<not> contains ''FAIL'' (upper (strip ''ERROR_9''))"
    unfolding u by simp_all
  have asc: "ascii_token ''ERROR_9''"
    by (simp add: ascii_token_def is_ascii_def)
  have a: "awaiting_result1 loaded_object" "awaiting_result2 both_loaded_object"
    by (simp_all add: loaded_object_fields both_loaded_object_fields)
  note t1 = invalid_verdict_aborts_at_unload[of loaded_object "''ERROR_9''" ?s1 "[completing_plan]"]
  note t2 = invalid_verdict_aborts_at_unload[of both_loaded_object "''ERROR_9''" ?s2 "[faulting_plan]"]
  have d1: "tester_result1 ?s1 = Some (upper (strip ''ERROR_9''))" "\<not> awaiting_result1 ?s1"
    using t1 a c asc by blast+
  have d2: "tester_result2 ?s2 = Some (upper (strip ''ERROR_9''))" "\<not> awaiting_result2 ?s2"
    using t2 a c asc by blast+
  have g1: "m1_unload_guard False ?s1"
    by (simp add: m1_unload_guard_def external_test_complete_def log_def Let_def
        loaded_object_fields)
  have g2: "m2_unload_guard False ?s2"
    by (simp add: m2_unload_guard_def external_test_complete_def log_def Let_def
        both_loaded_object_fields)
  have e1: "m1_unload (False, [completing_plan], ?s1) =
        (case run_next (plan_open_machine1 (cfg ?s1)) (plan_timeout_s (cfg ?s1)) [completing_plan]
                (?s1\<lparr>attempts := attempts ?s1 @ [M1_UNLOAD]\<rparr>) of
           Polling s1 \<Rightarrow> Blocked s1
         | Returned (ok, ps1, s1) \<Rightarrow>
             if ok then Break (log (LogInvalidResult 1 (upper (strip ''ERROR_9''))) s1) else Break s1)"
    using t1 g1 d1 c asc by blast
  have e2: "m2_unload (False, [faulting_plan], ?s2) =
        (case run_next (plan_open_machine2 (cfg ?s2)) (plan_timeout_s (cfg ?s2)) [faulting_plan]
                (?s2\<lparr>attempts := attempts ?s2 @ [M2_UNLOAD]\<rparr>) of
           Polling s1 \<Rightarrow> Blocked s1
         | Returned (ok, ps1, s1) \<Rightarrow>
             if ok then Break (log (LogInvalidResult 2 (upper (strip ''ERROR_9''))) s1) else Break s1)"
    using t2 g2 d2 c asc by blast
  have n1: "\<not> is_next (m1_unload (False, [completing_plan], ?s1))"
    unfolding e1 by (simp add: is_next_def split: outcome.splits)
  have n2: "\<not> is_next (m2_unload (False, [faulting_plan], ?s2))"
    unfolding e2 by (simp add: is_next_def split: outcome.splits)
  have r1: "invalid_reports (log_out (block_state (m1_unload (False, [completing_plan], ?s1))))
       = [(1, ''ERROR_9'')]"
    unfolding e1 u by (simp add: run_defs)
  show ?thesis
    using a c asc d1(1) d2(1) g1 g2 r1 n1 n2 unfolding u by blast
qed

section \<open>The stored verdict\<close>

lemma env_frame_verdicts_ok: "env_frame s s' \<Longrightarrow> verdicts_ok s \<Longrightarrow> verdicts_ok s'"
  by (simp add: env_frame_def verdicts_ok_def)

lemma verdicts_ok_attempt: "verdicts_ok (s\<lparr>attempts := a\<rparr>) = verdicts_ok s"
  by (simp add: verdicts_ok_def)

lemma run_next_ok_R:
  "run_next p t ps s = Returned (ok, ps', s') \<Longrightarrow> verdicts_ok s \<Longrightarrow> verdicts_ok s'"
  using env_frame_verdicts_ok run_next_Returned by blast

lemma run_next_ok_P:
  "run_next p t ps s = Polling s' \<Longrightarrow> verdicts_ok s \<Longrightarrow> verdicts_ok s'"
  using env_frame_verdicts_ok run_next_Polling by blast

lemma verdicts_ok_clear:
  "verdicts_ok s \<Longrightarrow> verdicts_ok (s\<lparr>tester_loaded1 := b, tester_result1 := None\<rparr>)"
  "verdicts_ok s \<Longrightarrow> verdicts_ok (s\<lparr>tester_loaded2 := b, tester_result2 := None\<rparr>)"
  by (simp_all add: verdicts_ok_def verdict_ok_def)

lemma verdicts_ok_load:
  "verdicts_ok s \<Longrightarrow> verdicts_ok (s\<lparr>awaiting_result1 := a, current_slot1 := n,
       tester_operating1 := b, tester_loaded1 := c\<rparr>)"
  "verdicts_ok s \<Longrightarrow> verdicts_ok (s\<lparr>awaiting_result2 := a, current_slot2 := n,
       tester_operating2 := b, tester_loaded2 := c\<rparr>)"
  by (simp_all add: verdicts_ok_def)

lemma verdicts_ok_log: "verdicts_ok (log m s) = verdicts_ok s"
  by (simp add: verdicts_ok_def log_def)

lemma m1_place_ok: "verdicts_ok s \<Longrightarrow> verdicts_ok (block_state (m1_place plan ps s))"
  by (auto simp: m1_place_def block_state_def verdicts_ok_clear split: outcome.splits
      dest: run_next_ok_R run_next_ok_P)

lemma m2_place_ok: "verdicts_ok s \<Longrightarrow> verdicts_ok (block_state (m2_place plan ps s))"
  by (auto simp: m2_place_def block_state_def verdicts_ok_clear split: outcome.splits
      dest: run_next_ok_R run_next_ok_P)

lemma m1_unload_ok:
  assumes "verdicts_ok s"
  shows "verdicts_ok (block_state (m1_unload (p, ps, s)))"
proof (cases "m1_unload_guard p s")
  case False
  then show ?thesis using assms by (simp add: m1_unload_skip block_state_def)
next
  case True
  let ?s0 = "s\<lparr>attempts := attempts s @ [M1_UNLOAD]\<rparr>"
  have o0: "verdicts_ok ?s0" using assms by (simp add: verdicts_ok_attempt)
  show ?thesis
  proof (cases "run_next (plan_open_machine1 (cfg s)) (plan_timeout_s (cfg s)) ps ?s0")
    case (Polling s1)
    then show ?thesis
      using True run_next_ok_P[OF Polling o0] by (simp add: m1_unload_def block_state_def)
  next
    case (Returned x)
    obtain ok ps1 s1 where x: "x = (ok, ps1, s1)" by (cases x)
    have o1: "verdicts_ok s1" using run_next_ok_R[OF Returned[unfolded x] o0] .
    show ?thesis
      using True Returned x o1 m1_place_ok[OF o1, of _ ps1]
      by (auto simp: m1_unload_def Let_def verdicts_ok_log split: option.splits)
         (simp_all add: block_state_def verdicts_ok_log)
  qed
qed

lemma m2_unload_ok:
  assumes "verdicts_ok s"
  shows "verdicts_ok (block_state (m2_unload (p, ps, s)))"
proof (cases "m2_unload_guard p s")
  case False
  then show ?thesis using assms by (simp add: m2_unload_skip block_state_def)
next
  case True
  let ?s0 = "s\<lparr>attempts := attempts s @ [M2_UNLOAD]\<rparr>"
  have o0: "verdicts_ok ?s0" using assms by (simp add: verdicts_ok_attempt)
  show ?thesis
  proof (cases "run_next (plan_open_machine2 (cfg s)) (plan_timeout_s (cfg s)) ps ?s0")
    case (Polling s1)
    then show ?thesis
      using True run_next_ok_P[OF Polling o0] by (simp add: m2_unload_def block_state_def)
  next
    case (Returned x)
    obtain ok ps1 s1 where x: "x = (ok, ps1, s1)" by (cases x)
    have o1: "verdicts_ok s1" using run_next_ok_R[OF Returned[unfolded x] o0] .
    show ?thesis
      using True Returned x o1 m2_place_ok[OF o1, of _ ps1]
      by (auto simp: m2_unload_def Let_def verdicts_ok_log split: option.splits)
         (simp_all add: block_state_def verdicts_ok_log)
  qed
qed

lemma m1_load_ok:
  assumes "verdicts_ok s"
  shows "verdicts_ok (block_state (m1_load (p, ps, s)))"
proof (cases "m1_load_guard p s")
  case False
  then show ?thesis using assms by (simp add: m1_load_skip block_state_def)
next
  case True
  let ?s0 = "s\<lparr>attempts := attempts s @ [M1_LOAD]\<rparr>"
  have o0: "verdicts_ok ?s0" using assms by (simp add: verdicts_ok_attempt)
  show ?thesis
    using True o0
    by (auto simp: m1_load_def block_state_def verdicts_ok_load split: outcome.splits
        dest: run_next_ok_R run_next_ok_P)
qed

lemma m2_load_ok:
  assumes "verdicts_ok s"
  shows "verdicts_ok (block_state (m2_load (p, ps, s)))"
proof (cases "m2_load_guard p s")
  case False
  then show ?thesis using assms by (simp add: m2_load_skip block_state_def)
next
  case True
  let ?s0 = "s\<lparr>attempts := attempts s @ [M2_LOAD]\<rparr>"
  have o0: "verdicts_ok ?s0" using assms by (simp add: verdicts_ok_attempt)
  show ?thesis
    using True o0
    by (auto simp: m2_load_def block_state_def verdicts_ok_load split: outcome.splits
        dest: run_next_ok_R run_next_ok_P)
qed

lemma then_do_ok:
  assumes "verdicts_ok (block_state r)"
    and "\<And>p ps s. verdicts_ok s \<Longrightarrow> verdicts_ok (block_state (f (p, ps, s)))"
  shows "verdicts_ok (block_state (then_do r f))"
proof (cases r)
  case (Next c)
  obtain p ps s where c: "c = (p, ps, s)" by (cases c)
  show ?thesis
    using assms(1) assms(2)[of s p ps] Next c by (simp add: then_do_def block_state_def)
qed (use assms(1) in \<open>simp_all add: then_do_def block_state_def\<close>)

lemma then_finish_ok:
  assumes "verdicts_ok (block_state r)"
  shows "verdicts_ok (flow_state (then_do r finish))"
proof (cases r)
  case (Next c)
  obtain p ps s where c: "c = (p, ps, s)" by (cases c)
  show ?thesis
    using assms Next c env_frame_verdicts_ok[OF env_frame_finish[of s p ps]]
    by (simp add: then_do_def block_state_def)
qed (use assms in \<open>simp_all add: then_do_def block_state_def flow_state_def\<close>)

lemma loop_body_ok:
  assumes "verdicts_ok s"
  shows "verdicts_ok (flow_state (loop_body ts s))"
proof -
  have a: "verdicts_ok (absorb s)"
    using env_frame_verdicts_ok[OF env_frame_absorb assms] .
  show ?thesis
    unfolding loop_body_def
    by (intro then_finish_ok then_do_ok m1_unload_ok m1_load_ok m2_unload_ok m2_load_ok a)
qed

lemma iteration_ok:
  assumes "verdicts_ok s"
  shows "verdicts_ok (flow_state (iteration ts s))"
proof (cases "wait_if_user_paused (pause_polls ts) s")
  case (Polling s1)
  then show ?thesis
    using env_frame_verdicts_ok[OF env_frame_wait[of s "pause_polls ts"] assms]
    by (simp add: iteration_def flow_state_def outcome_state_def)
next
  case (Returned s1)
  have "verdicts_ok s1"
    using env_frame_verdicts_ok[OF env_frame_wait[of s "pause_polls ts"] assms] Returned
    by (simp add: outcome_state_def)
  then show ?thesis
    using Returned loop_body_ok[of s1 ts] by (simp add: iteration_def flow_state_def)
qed

lemma reachable_verdicts_ok: "reachable s \<Longrightarrow> verdicts_ok s"
proof (induction rule: reachable.induct)
  case (reach_init config)
  show ?case by (simp add: verdicts_ok_def verdict_ok_def init_def)
next
  case (reach_event s e)
  then show ?case using env_frame_verdicts_ok[OF env_frame_apply_event] by blast
next
  case (reach_start s total_slots)
  then show ?case
    by (cases total_slots)
       (simp_all add: verdicts_ok_def start_seq_worker_def start_listener_def log_def Let_def)
next
  case (reach_reset s)
  show ?case by (simp add: verdicts_ok_def verdict_ok_def reset_def log_def Let_def)
next
  case (reach_prologue s p1 p2)
  then show ?case
    by (cases p1; cases p2)
       (simp_all add: verdicts_ok_def worker_prologue_def test_comms_def ping_serial_def
          log_def Let_def)
next
  case (reach_plan s plan_name timeout_s ps)
  then show ?case using env_frame_verdicts_ok[OF env_frame_run_micro_plan] by blast
next
  case (reach_iteration s ts)
  then show ?case using iteration_ok by blast
next
  case (reach_finally s)
  show ?case
    by (simp add: verdicts_ok_def verdict_ok_def worker_finally_def reset_def stop_listener_def
        log_def Let_def)
qed

lemma m1_place_clears:
  "is_next (m1_place plan ps s) \<Longrightarrow>
   tester_result1 (block_state (m1_place plan ps s)) = None
   \<and> \<not> tester_loaded1 (block_state (m1_place plan ps s))"
  by (auto simp: m1_place_def is_next_def block_state_def split: outcome.splits if_splits)

lemma m2_place_clears:
  "is_next (m2_place plan ps s) \<Longrightarrow>
   tester_result2 (block_state (m2_place plan ps s)) = None
   \<and> \<not> tester_loaded2 (block_state (m2_place plan ps s))"
  by (auto simp: m2_place_def is_next_def block_state_def split: outcome.splits if_splits)

lemma m1_unload_clears:
  "m1_unload_guard False s \<Longrightarrow> is_next (m1_unload (False, ps, s)) \<Longrightarrow>
   tester_result1 (block_state (m1_unload (False, ps, s))) = None
   \<and> \<not> tester_loaded1 (block_state (m1_unload (False, ps, s)))"
  by (auto simp: m1_unload_def Let_def is_next_def[of "Break _"] is_next_def[of "Blocked _"]
      split: outcome.splits if_splits option.splits dest: m1_place_clears)

lemma m2_unload_clears:
  "m2_unload_guard False s \<Longrightarrow> is_next (m2_unload (False, ps, s)) \<Longrightarrow>
   tester_result2 (block_state (m2_unload (False, ps, s))) = None
   \<and> \<not> tester_loaded2 (block_state (m2_unload (False, ps, s)))"
  by (auto simp: m2_unload_def Let_def is_next_def[of "Break _"] is_next_def[of "Blocked _"]
      split: outcome.splits if_splits option.splits dest: m2_place_clears)

lemma reachable_loaded_object: "reachable loaded_object"
  unfolding loaded_object_def started_object_def
  by (intro reach_iteration reach_prologue reach_start reach_init)

text \<open>
  Claim C6, as stated: in every reachable state the verdict of a station is empty, PASS
  or FAIL. It fails in the state reached when machine 1 has been loaded and the token
  \<open>ERROR_9\<close> is delivered: the verdict of machine 1 is then \<open>ERROR_9\<close>.
\<close>

theorem verdict_is_pass_or_fail_counterexample:
  "reachable (apply_event (EvVerdict 1 (Some ''ERROR_9'')) loaded_object)
   \<and> tester_result1 (apply_event (EvVerdict 1 (Some ''ERROR_9'')) loaded_object) = Some ''ERROR_9''"
proof -
  have "reachable (apply_event (EvVerdict 1 (Some ''ERROR_9'')) loaded_object)"
    by (rule reach_event) (rule reachable_loaded_object)
  moreover have "tester_result1 (apply_event (EvVerdict 1 (Some ''ERROR_9'')) loaded_object)
      = Some ''ERROR_9''"
    by (simp add: external_test_complete_def loaded_object_fields log_def Let_def
        normalize_verdict_def upper_def upper_char_def strip_def is_space_def)
  ultimately show ?thesis by blast
qed

text \<open>
  Claim C6, amended. In every reachable state the verdict of a station is empty, or it
  is a normalised token, one that \<open>strip\<close> and \<open>upper\<close> leave as it is, and this
  token is \<open>PASS\<close>, or \<open>FAIL\<close>, or contains neither \<open>PASS\<close> nor \<open>FAIL\<close>; and when
  an unload block has run its place plan successfully, the verdict of its station is
  empty again and the station is not loaded.
\<close>

theorem stored_verdict_normalised:
  "reachable s \<Longrightarrow>
   verdict_ok (tester_result1 s) \<and> verdict_ok (tester_result2 s)
   \<and> (\<forall>v. tester_result1 s = Some v \<or> tester_result2 s = Some v \<longrightarrow>
         upper (strip v) = v
         \<and> (v = ''PASS'' \<or> v = ''FAIL''
              \<or> (\<not> contains ''PASS'' v \<and> \<not> contains ''FAIL'' v)))
   \<and> (m1_unload_guard False s \<and> is_next (m1_unload (False, ps, s)) \<longrightarrow>
        tester_result1 (block_state (m1_unload (False, ps, s))) = None
        \<and> \<not> tester_loaded1 (block_state (m1_unload (False, ps, s))))
   \<and> (m2_unload_guard False s \<and> is_next (m2_unload (False, ps, s)) \<longrightarrow>
        tester_result2 (block_state (m2_unload (False, ps, s))) = None
        \<and> \<not> tester_loaded2 (block_state (m2_unload (False, ps, s))))"
proof -
  assume r: "reachable s"
  have ok: "verdict_ok (tester_result1 s)" "verdict_ok (tester_result2 s)"
    using reachable_verdicts_ok[OF r] by (simp_all add: verdicts_ok_def)
  have ex: "upper (strip v) = v
         \<and> (v = ''PASS'' \<or> v = ''FAIL''
              \<or> (\<not> contains ''PASS'' v \<and> \<not> contains ''FAIL'' v))"
    if "tester_result1 s = Some v \<or> tester_result2 s = Some v" for v
    using that ok by (auto simp: verdict_ok_def)
  show ?thesis
    using ok ex m1_unload_clears[of s ps] m2_unload_clears[of s ps] by blast
qed

theorem stored_verdict_normalised_witness:
  "verdict_ok (Some ''ERROR_9'') \<and> \<not> verdict_ok (Some ''pass'')
   \<and> \<not> verdict_ok (Some '' FAIL '') \<and> \<not> verdict_ok (Some ''xPASSx'')
   \<and> reachable (apply_event (EvVerdict 1 (Some ''pass '')) loaded_object)
   \<and> tester_result1 (apply_event (EvVerdict 1 (Some ''pass '')) loaded_object) = Some ''PASS''
   \<and> verdict_ok (tester_result1 (apply_event (EvVerdict 1 (Some ''pass '')) loaded_object))
   \<and> m1_unload_guard False (apply_event (EvVerdict 1 (Some ''pass '')) loaded_object)
   \<and> is_next (m1_unload (False, [completing_plan, completing_plan],
        apply_event (EvVerdict 1 (Some ''pass '')) loaded_object))
   \<and> tester_result1 (block_state (m1_unload (False, [completing_plan, completing_plan],
        apply_event (EvVerdict 1 (Some ''pass '')) loaded_object))) = None
   \<and> reachable (apply_event (EvVerdict 2 (Some ''xFAILx'')) both_loaded_object)
   \<and> m2_unload_guard False (apply_event (EvVerdict 2 (Some ''xFAILx'')) both_loaded_object)
   \<and> is_next (m2_unload (False, [completing_plan, completing_plan],
        apply_event (EvVerdict 2 (Some ''xFAILx'')) both_loaded_object))
   \<and> tester_result2 (block_state (m2_unload (False, [completing_plan, completing_plan],
        apply_event (EvVerdict 2 (Some ''xFAILx'')) both_loaded_object))) = None"
proof -
  let ?s1 = "apply_event (EvVerdict 1 (Some ''pass '')) loaded_object"
  let ?s2 = "apply_event (EvVerdict 2 (Some ''xFAILx'')) both_loaded_object"
  have r1: "reachable ?s1"
    by (rule reach_event) (rule reachable_loaded_object)
  have r2: "reachable ?s2"
    unfolding both_loaded_object_def
    by (intro reach_event reach_iteration reachable_loaded_object)
  have v1: "tester_result1 ?s1 = Some ''PASS''"
    by (simp add: external_test_complete_def loaded_object_fields log_def Let_def
        normalize_verdict_def upper_def upper_char_def strip_def is_space_def)
  have g1: "m1_unload_guard False ?s1"
    by (simp add: m1_unload_guard_def external_test_complete_def log_def Let_def
        loaded_object_fields)
  have g2: "m2_unload_guard False ?s2"
    by (simp add: m2_unload_guard_def external_test_complete_def log_def Let_def
        both_loaded_object_fields)
  have n1: "is_next (m1_unload (False, [completing_plan, completing_plan], ?s1))"
    by (simp add: run_defs)
  have n2: "is_next (m2_unload (False, [completing_plan, completing_plan], ?s2))"
    by (simp add: run_defs)
  note t1 = stored_verdict_normalised[OF r1, of "[completing_plan, completing_plan]"]
  note t2 = stored_verdict_normalised[OF r2, of "[completing_plan, completing_plan]"]
  have c1: "verdict_ok (tester_result1 ?s1)"
    "tester_result1 (block_state (m1_unload (False, [completing_plan, completing_plan], ?s1))) = None"
    using t1 g1 n1 by blast+
  have c2: "tester_result2 (block_state (m2_unload (False, [completing_plan, completing_plan], ?s2))) = None"
    using t2 g2 n2 by blast
  have d: "verdict_ok (Some ''ERROR_9'')" "\<not> verdict_ok (Some ''pass'')"
    "\<not> verdict_ok (Some '' FAIL '')" "\<not> verdict_ok (Some ''xPASSx'')"
    by (simp_all add: verdict_ok_def upper_def upper_char_def strip_def is_space_def)
  show ?thesis
    using d r1 r2 v1 g1 g2 n1 n2 c1 c2 by blast
qed

end
